theory Spec2Isabelle
  imports Main "HOL-Library.Word"
begin

section \<open>The machine combiner: data model\<close>

text \<open>
  A shallow embedding of \<^verbatim>\<open>lib/CodeGen/MachineCombiner.cpp\<close>. Cycle counts are the
  code's \<^verbatim>\<open>unsigned\<close>: 32-bit words, whose addition wraps. Vector sizes and vector
  indices computed from them are natural numbers (the conversion of \<^verbatim>\<open>size()\<close> to
  \<^verbatim>\<open>unsigned\<close> is the identity below \<open>2 ^ 32\<close> elements), except that
  \<^verbatim>\<open>size() - 1\<close> on an empty vector is written out as the out-of-range access it is.
\<close>

type_synonym u32 = "32 word"

text \<open>
  A machine operand is a register operand (register number, def flag; a register operand
  that is not a def is a use) or some other operand.
\<close>

datatype MachineOperand = MO_Register u32 bool | MO_Other

text \<open>
  A machine instruction. \<open>Addr\<close> stands for the identity of the object: the code handles
  instructions through pointers.
\<close>

record MachineInstr =
  Addr :: nat
  Opcode :: u32
  Operands :: "MachineOperand list"
  isPHI :: bool

text \<open>
  Modelled from the spec: the enumeration \<^verbatim>\<open>MachineCombinerPattern\<close> is declared in a header
  that is not part of the sources at hand. The four reassociation identifiers are the ones
  the code names; every other identifier is \<open>OTHER_PATTERN n\<close>.
\<close>

datatype MachineCombinerPattern =
  REASSOC_AX_BY | REASSOC_AX_YB | REASSOC_XA_BY | REASSOC_XA_YB | OTHER_PATTERN nat

datatype CombinerObjective = MustReduceDepth | Default

text \<open>
  The failures of the code: a failed assertion, an access outside a vector, stepping or
  dereferencing an iterator at the end of its list, and continuing with an iterator whose
  node was erased.
\<close>

datatype error =
  MissingMachineModel
  | BadIndex
  | OutOfRange
  | EndIterator
  | DanglingIterator

subsection \<open>The collaborators of the cost model\<close>

text \<open>
  The scheduling model (\<^verbatim>\<open>TSchedModel\<close>), the queries on instructions and opcodes that are
  answered outside this file, the register information (\<^verbatim>\<open>MRI\<close>) and a block trace are
  parameters. The use-def list of a register, which \<^verbatim>\<open>reg_begin\<close> iterates, is the list
  of its operands, each with the instruction it belongs to (its parent, possibly null).
\<close>

record TargetSchedModel =
  hasInstrSchedModel :: bool
  hasInstrSchedModelOrItineraries :: bool
  computeOperandLatency :: "MachineInstr \<Rightarrow> int \<Rightarrow> MachineInstr \<Rightarrow> int \<Rightarrow> u32"
  computeInstrLatency :: "MachineInstr \<Rightarrow> u32"

record Target =
  isVirtualRegister :: "u32 \<Rightarrow> bool"
  findRegisterDefOperandIdx :: "MachineInstr \<Rightarrow> u32 \<Rightarrow> int"
  findRegisterUseOperandIdx :: "MachineInstr \<Rightarrow> u32 \<Rightarrow> int"
  getSchedClass :: "u32 \<Rightarrow> u32"
  getSchedClassDesc :: "u32 \<Rightarrow> nat"

record MachineRegisterInfo =
  getUniqueVRegDef :: "u32 \<Rightarrow> MachineInstr option"
  reg_begin :: "u32 \<Rightarrow> (MachineOperand \<times> MachineInstr option) list"

record Trace =
  getInstrCyclesDepth :: "MachineInstr \<Rightarrow> u32"
  getInstrSlack :: "MachineInstr \<Rightarrow> u32"
  isDepInTrace :: "MachineInstr \<Rightarrow> MachineInstr \<Rightarrow> bool"
  getResourceLength :: "nat list \<Rightarrow> nat list \<Rightarrow> nat list \<Rightarrow> u32"

section \<open>The cost model\<close>

subsection \<open>getOperandDef\<close>

definition getOperandDef ::
  "Target \<Rightarrow> MachineRegisterInfo \<Rightarrow> MachineOperand \<Rightarrow> MachineInstr option" where
  "getOperandDef TG MRI MO =
     (let DefInstr =
        (case MO of
           MO_Register r d \<Rightarrow>
             if isVirtualRegister TG r then getUniqueVRegDef MRI r else None
         | MO_Other \<Rightarrow> None)
      in case DefInstr of
           Some D \<Rightarrow> if isPHI D then None else Some D
         | None \<Rightarrow> None)"

subsection \<open>getDepth\<close>

text \<open>
  The inner loop of \<^verbatim>\<open>getDepth\<close> over the operands of \<open>InstrPtr\<close>, with the running
  \<open>IDepth\<close>; \<open>InstrDepth\<close> holds the depths pushed so far.
\<close>

fun getDepth_operands ::
  "TargetSchedModel \<Rightarrow> Target \<Rightarrow> MachineRegisterInfo \<Rightarrow> Trace \<Rightarrow> MachineInstr list \<Rightarrow>
   (u32 \<rightharpoonup> u32) \<Rightarrow> u32 list \<Rightarrow> MachineInstr \<Rightarrow> MachineOperand list \<Rightarrow> u32 \<Rightarrow> error + u32" where
  "getDepth_operands TSM TG MRI BlockTrace InsInstrs InstrIdxForVirtReg InstrDepth InstrPtr [] IDepth =
     Inr IDepth"
| "getDepth_operands TSM TG MRI BlockTrace InsInstrs InstrIdxForVirtReg InstrDepth InstrPtr (MO # MOs) IDepth =
     (case MO of
        MO_Other \<Rightarrow>
          getDepth_operands TSM TG MRI BlockTrace InsInstrs InstrIdxForVirtReg InstrDepth InstrPtr MOs IDepth
      | MO_Register r d \<Rightarrow>
          if \<not> isVirtualRegister TG r then
            getDepth_operands TSM TG MRI BlockTrace InsInstrs InstrIdxForVirtReg InstrDepth InstrPtr MOs IDepth
          else if d then
            getDepth_operands TSM TG MRI BlockTrace InsInstrs InstrIdxForVirtReg InstrDepth InstrPtr MOs IDepth
          else
            (case InstrIdxForVirtReg r of
               Some II \<Rightarrow>
                 if \<not> unat II < length InstrDepth then Inl BadIndex
                 else
                   (let DefInstr = InsInstrs ! unat II;
                        DepthOp = InstrDepth ! unat II;
                        LatencyOp = computeOperandLatency TSM
                          DefInstr (findRegisterDefOperandIdx TG DefInstr r)
                          InstrPtr (findRegisterUseOperandIdx TG InstrPtr r)
                    in getDepth_operands TSM TG MRI BlockTrace InsInstrs InstrIdxForVirtReg InstrDepth
                         InstrPtr MOs (max IDepth (DepthOp + LatencyOp)))
             | None \<Rightarrow>
                 (case getOperandDef TG MRI MO of
                    Some DefInstr \<Rightarrow>
                      (let DepthOp = getInstrCyclesDepth BlockTrace DefInstr;
                           LatencyOp = computeOperandLatency TSM
                             DefInstr (findRegisterDefOperandIdx TG DefInstr r)
                             InstrPtr (findRegisterUseOperandIdx TG InstrPtr r)
                       in getDepth_operands TSM TG MRI BlockTrace InsInstrs InstrIdxForVirtReg InstrDepth
                            InstrPtr MOs (max IDepth (DepthOp + LatencyOp)))
                  | None \<Rightarrow>
                      getDepth_operands TSM TG MRI BlockTrace InsInstrs InstrIdxForVirtReg InstrDepth
                        InstrPtr MOs (max IDepth (0 + 0)))))"

text \<open>
  The outer loop over the instructions still to be processed; each pass pushes one depth.
\<close>

fun getDepth_instrs ::
  "TargetSchedModel \<Rightarrow> Target \<Rightarrow> MachineRegisterInfo \<Rightarrow> Trace \<Rightarrow> MachineInstr list \<Rightarrow>
   (u32 \<rightharpoonup> u32) \<Rightarrow> MachineInstr list \<Rightarrow> u32 list \<Rightarrow> error + u32 list" where
  "getDepth_instrs TSM TG MRI BlockTrace InsInstrs InstrIdxForVirtReg [] InstrDepth = Inr InstrDepth"
| "getDepth_instrs TSM TG MRI BlockTrace InsInstrs InstrIdxForVirtReg (InstrPtr # rest) InstrDepth =
     (case getDepth_operands TSM TG MRI BlockTrace InsInstrs InstrIdxForVirtReg InstrDepth InstrPtr
             (Operands InstrPtr) 0 of
        Inl e \<Rightarrow> Inl e
      | Inr IDepth \<Rightarrow>
          getDepth_instrs TSM TG MRI BlockTrace InsInstrs InstrIdxForVirtReg rest (InstrDepth @ [IDepth]))"

definition getDepth ::
  "TargetSchedModel \<Rightarrow> Target \<Rightarrow> MachineRegisterInfo \<Rightarrow> MachineInstr list \<Rightarrow> (u32 \<rightharpoonup> u32) \<Rightarrow>
   Trace \<Rightarrow> error + u32" where
  "getDepth TSM TG MRI InsInstrs InstrIdxForVirtReg BlockTrace =
     (if \<not> hasInstrSchedModelOrItineraries TSM then Inl MissingMachineModel
      else
        (case getDepth_instrs TSM TG MRI BlockTrace InsInstrs InstrIdxForVirtReg InsInstrs [] of
           Inl e \<Rightarrow> Inl e
         | Inr InstrDepth \<Rightarrow>
             if InsInstrs = [] then Inl OutOfRange
             else
               (let NewRootIdx = length InsInstrs - 1
                in if NewRootIdx < length InstrDepth then Inr (InstrDepth ! NewRootIdx)
                   else Inl OutOfRange)))"

subsection \<open>getLatency\<close>

text \<open>
  The loop of \<^verbatim>\<open>getLatency\<close> over the operands of \<open>NewRoot\<close>, with the running
  \<open>NewRootLatency\<close>. The iterator \<open>RI\<close> starts at the head of the register's use-def list
  and is stepped once; stepping it at the end of the list, or dereferencing it there, fails.
\<close>

fun getLatency_operands ::
  "TargetSchedModel \<Rightarrow> Target \<Rightarrow> MachineRegisterInfo \<Rightarrow> Trace \<Rightarrow> MachineInstr \<Rightarrow> MachineInstr \<Rightarrow>
   MachineOperand list \<Rightarrow> u32 \<Rightarrow> error + u32" where
  "getLatency_operands TSM TG MRI BlockTrace Root NewRoot [] NewRootLatency = Inr NewRootLatency"
| "getLatency_operands TSM TG MRI BlockTrace Root NewRoot (MO # MOs) NewRootLatency =
     (case MO of
        MO_Other \<Rightarrow> getLatency_operands TSM TG MRI BlockTrace Root NewRoot MOs NewRootLatency
      | MO_Register r d \<Rightarrow>
          if \<not> isVirtualRegister TG r then
            getLatency_operands TSM TG MRI BlockTrace Root NewRoot MOs NewRootLatency
          else if \<not> d then
            getLatency_operands TSM TG MRI BlockTrace Root NewRoot MOs NewRootLatency
          else
            (case reg_begin MRI r of
               [] \<Rightarrow> Inl EndIterator
             | _ # RI \<Rightarrow>
                 (case RI of
                    [] \<Rightarrow> Inl EndIterator
                  | (_, UseMO) # _ \<Rightarrow>
                      (let LatencyOp =
                         (case UseMO of
                            Some U \<Rightarrow>
                              if isDepInTrace BlockTrace Root U then
                                computeOperandLatency TSM
                                  NewRoot (findRegisterDefOperandIdx TG NewRoot r)
                                  U (findRegisterUseOperandIdx TG U r)
                              else computeInstrLatency TSM NewRoot
                          | None \<Rightarrow> computeInstrLatency TSM NewRoot)
                       in getLatency_operands TSM TG MRI BlockTrace Root NewRoot MOs
                            (max NewRootLatency LatencyOp)))))"

definition getLatency ::
  "TargetSchedModel \<Rightarrow> Target \<Rightarrow> MachineRegisterInfo \<Rightarrow> MachineInstr \<Rightarrow> MachineInstr \<Rightarrow> Trace \<Rightarrow>
   error + u32" where
  "getLatency TSM TG MRI Root NewRoot BlockTrace =
     (if \<not> hasInstrSchedModelOrItineraries TSM then Inl MissingMachineModel
      else getLatency_operands TSM TG MRI BlockTrace Root NewRoot (Operands NewRoot) 0)"

subsection \<open>improvesCriticalPathLen\<close>

fun getCombinerObjective :: "MachineCombinerPattern \<Rightarrow> CombinerObjective" where
  "getCombinerObjective REASSOC_AX_BY = MustReduceDepth"
| "getCombinerObjective REASSOC_AX_YB = MustReduceDepth"
| "getCombinerObjective REASSOC_XA_BY = MustReduceDepth"
| "getCombinerObjective REASSOC_XA_YB = MustReduceDepth"
| "getCombinerObjective (OTHER_PATTERN n) = Default"

definition improvesCriticalPathLen ::
  "TargetSchedModel \<Rightarrow> Target \<Rightarrow> MachineRegisterInfo \<Rightarrow> nat \<Rightarrow> MachineInstr \<Rightarrow> Trace \<Rightarrow>
   MachineInstr list \<Rightarrow> MachineInstr list \<Rightarrow> (u32 \<rightharpoonup> u32) \<Rightarrow> MachineCombinerPattern \<Rightarrow>
   error + bool" where
  "improvesCriticalPathLen TSM TG MRI MBB Root BlockTrace InsInstrs DelInstrs InstrIdxForVirtReg Pattern =
     (if \<not> hasInstrSchedModelOrItineraries TSM then Inl MissingMachineModel
      else if InsInstrs = [] then Inl OutOfRange
      else
        (let NewRootIdx = length InsInstrs - 1;
             NewRoot = InsInstrs ! NewRootIdx
         in case getDepth TSM TG MRI InsInstrs InstrIdxForVirtReg BlockTrace of
              Inl e \<Rightarrow> Inl e
            | Inr NewRootDepth \<Rightarrow>
                (let RootDepth = getInstrCyclesDepth BlockTrace Root
                 in if getCombinerObjective Pattern = MustReduceDepth then
                      Inr (NewRootDepth < RootDepth)
                    else
                      (case getLatency TSM TG MRI Root NewRoot BlockTrace of
                         Inl e \<Rightarrow> Inl e
                       | Inr NewRootLatency \<Rightarrow>
                           (let RootLatency =
                                  foldl (\<lambda>acc I. acc + computeInstrLatency TSM I) 0 DelInstrs;
                                RootSlack = getInstrSlack BlockTrace Root;
                                NewCycleCount = NewRootDepth + NewRootLatency;
                                OldCycleCount = RootDepth + RootLatency + RootSlack
                            in Inr (NewCycleCount \<le> OldCycleCount))))))"

subsection \<open>preservesResourceLen\<close>

text \<open>\<^verbatim>\<open>instr2instrSC\<close> pushes one scheduling class descriptor per instruction onto \<open>InstrsSC\<close>.\<close>

fun instr2instrSC :: "Target \<Rightarrow> MachineInstr list \<Rightarrow> nat list \<Rightarrow> nat list" where
  "instr2instrSC TG [] InstrsSC = InstrsSC"
| "instr2instrSC TG (InstrPtr # rest) InstrsSC =
     (let Opc = Opcode InstrPtr;
          Idx = getSchedClass TG Opc;
          SC = getSchedClassDesc TG Idx
      in instr2instrSC TG rest (InstrsSC @ [SC]))"

definition preservesResourceLen ::
  "TargetSchedModel \<Rightarrow> Target \<Rightarrow> nat \<Rightarrow> Trace \<Rightarrow> MachineInstr list \<Rightarrow> MachineInstr list \<Rightarrow> bool" where
  "preservesResourceLen TSM TG MBB BlockTrace InsInstrs DelInstrs =
     (if \<not> hasInstrSchedModel TSM then True
      else
        (let MBBarr = [] @ [MBB];
             ResLenBeforeCombine = getResourceLength BlockTrace MBBarr [] [];
             InsInstrsSC = instr2instrSC TG InsInstrs [];
             DelInstrsSC = instr2instrSC TG DelInstrs [];
             ResLenAfterCombine = getResourceLength BlockTrace MBBarr InsInstrsSC DelInstrsSC
         in ResLenAfterCombine \<le> ResLenBeforeCombine))"

section \<open>The combiner driver\<close>

subsection \<open>State\<close>

text \<open>
  What the driver does beyond editing the block is recorded as events: obtaining the trace
  ensemble and a block trace, the two cost checks, the synthesis of a candidate, the
  invalidation of a block's trace, and the release of an unused instruction.
\<close>

datatype event =
  EvGetEnsemble
  | EvVerifyAnalysis
  | EvGenAlternativeCodeSequence MachineInstr MachineCombinerPattern
  | EvGetTrace nat
  | EvImprovesCriticalPathLen
  | EvPreservesResourceLen
  | EvInvalidate nat
  | EvDeleteMachineInstr MachineInstr

text \<open>
  The block being combined is held with its iterator \<^verbatim>\<open>BlockIter\<close>: \<open>BeforeIter\<close> are the
  instructions in front of the iterator, \<open>AfterIter\<close> the ones from the iterator to the end
  of the block. \<open>Others\<close> are the other blocks of the function. \<open>MinInstr\<close> tells whether
  the ensemble pointer is set. \<open>InstrIdxForVirtReg\<close> is the map of the candidate at hand.
\<close>

record State =
  BeforeIter :: "MachineInstr list"
  AfterIter :: "MachineInstr list"
  Others :: "MachineInstr list list"
  MinInstr :: bool
  NumInstCombined :: nat
  InstrIdxForVirtReg :: "u32 \<rightharpoonup> u32"
  Changed :: bool
  Log :: "event list"

text \<open>The instructions of the function, as the collaborators see them.\<close>

type_synonym MFView = "MachineInstr list \<times> MachineInstr list list"

definition view :: "State \<Rightarrow> MFView" where
  "view S = (BeforeIter S @ AfterIter S, Others S)"

text \<open>
  The pass object: the code-size flag, the scheduling model, and the collaborators.
  The register information, the traces and the pattern provider read the function, so
  they take its instructions as an argument.
\<close>

record MachineCombiner =
  OptSize :: bool
  TSchedModel :: TargetSchedModel
  TargetInfo :: Target
  RegInfo :: "MFView \<Rightarrow> MachineRegisterInfo"
  getLoopFor :: "nat \<Rightarrow> bool"
  getTrace :: "MFView \<Rightarrow> nat \<Rightarrow> Trace"
  getMachineCombinerPatterns :: "MFView \<Rightarrow> MachineInstr \<Rightarrow> bool \<times> MachineCombinerPattern list"
  genAlternativeCodeSequence ::
    "MFView \<Rightarrow> MachineInstr \<Rightarrow> MachineCombinerPattern \<Rightarrow>
     MachineInstr list \<times> MachineInstr list \<times> (u32 \<rightharpoonup> u32)"
  isThroughputPattern :: "MachineCombinerPattern \<Rightarrow> bool"

subsection \<open>doSubstitute\<close>

definition doSubstitute :: "MachineCombiner \<Rightarrow> nat \<Rightarrow> nat \<Rightarrow> bool" where
  "doSubstitute MC NewSize OldSize =
     (if OptSize MC \<and> NewSize < OldSize then True
      else if \<not> hasInstrSchedModelOrItineraries (TSchedModel MC) then True
      else False)"

subsection \<open>insertDeleteInstructions\<close>

text \<open>\<^verbatim>\<open>MBB->insert(&MI, X)\<close>: \<open>X\<close> is linked in front of \<open>MI\<close>.\<close>

fun insertBefore :: "MachineInstr \<Rightarrow> MachineInstr \<Rightarrow> MachineInstr list \<Rightarrow> MachineInstr list" where
  "insertBefore MI X [] = []"
| "insertBefore MI X (Y # Ys) = (if Y = MI then X # Y # Ys else Y # insertBefore MI X Ys)"

text \<open>
  The anchor \<open>MI\<close> is in front of the iterator when the driver inserts, so the insertion
  is into \<open>BeforeIter\<close>.
\<close>

definition MBB_insert :: "MachineInstr \<Rightarrow> MachineInstr \<Rightarrow> State \<Rightarrow> State" where
  "MBB_insert MI X S = S\<lparr>BeforeIter := insertBefore MI X (BeforeIter S)\<rparr>"

text \<open>Erasing an instruction unlinks it from the block that holds it.\<close>

definition eraseFromParent :: "MachineInstr \<Rightarrow> State \<Rightarrow> State" where
  "eraseFromParent I S =
     S\<lparr>BeforeIter := removeAll I (BeforeIter S),
       AfterIter := removeAll I (AfterIter S),
       Others := map (removeAll I) (Others S)\<rparr>"

definition insertDeleteInstructions ::
  "nat \<Rightarrow> MachineInstr \<Rightarrow> MachineInstr list \<Rightarrow> MachineInstr list \<Rightarrow> State \<Rightarrow> State" where
  "insertDeleteInstructions MBB MI InsInstrs DelInstrs S =
     (let S1 = foldl (\<lambda>s InstrPtr. MBB_insert MI InstrPtr s) S InsInstrs;
          S2 = foldl (\<lambda>s InstrPtr. eraseFromParent InstrPtr s) S1 DelInstrs;
          S3 = S2\<lparr>NumInstCombined := NumInstCombined S2 + 1\<rparr>;
          S4 = S3\<lparr>Log := Log S3 @ [EvInvalidate MBB]\<rparr>
      in S4\<lparr>Log := Log S4 @ [EvVerifyAnalysis]\<rparr>)"

subsection \<open>combineInstructions\<close>

text \<open>
  The body of the loop over the patterns of the anchor \<open>MI\<close>, for one pattern \<open>P\<close>.
  The result is the new state and whether the loop is left (\<^verbatim>\<open>break\<close>).
  \<open>InLoop\<close> tells whether the loop information has a loop for the block.
\<close>

definition tryPattern ::
  "MachineCombiner \<Rightarrow> nat \<Rightarrow> bool \<Rightarrow> MachineInstr \<Rightarrow> MachineCombinerPattern \<Rightarrow> State \<Rightarrow>
   error + (bool \<times> State)" where
  "tryPattern MC MBB InLoop MI P S =
     (let S1 = S\<lparr>InstrIdxForVirtReg := Map.empty\<rparr>;
          S2 = (if \<not> MinInstr S1 then S1\<lparr>MinInstr := True, Log := Log S1 @ [EvGetEnsemble]\<rparr>
                else S1);
          S3 = S2\<lparr>Log := Log S2 @ [EvVerifyAnalysis]\<rparr>;
          (InsInstrs, DelInstrs, Idx) = genAlternativeCodeSequence MC (view S3) MI P;
          S4 = S3\<lparr>InstrIdxForVirtReg := Idx,
                   Log := Log S3 @ [EvGenAlternativeCodeSequence MI P]\<rparr>;
          NewInstCount = length InsInstrs;
          OldInstCount = length DelInstrs
      in if NewInstCount = 0 then Inr (False, S4)
         else
           (let SubstituteAlways = (InLoop \<and> isThroughputPattern MC P)
            in if SubstituteAlways \<or> doSubstitute MC NewInstCount OldInstCount then
                 Inr (True, (insertDeleteInstructions MBB MI InsInstrs DelInstrs S4)\<lparr>Changed := True\<rparr>)
               else
                 (let BlockTrace = getTrace MC (view S4) MBB;
                      S5 = S4\<lparr>Log := Log S4 @ [EvGetTrace MBB]\<rparr>;
                      S6 = S5\<lparr>Log := Log S5 @ [EvImprovesCriticalPathLen]\<rparr>
                  in case improvesCriticalPathLen (TSchedModel MC) (TargetInfo MC)
                            (RegInfo MC (view S5)) MBB MI BlockTrace InsInstrs DelInstrs Idx P of
                       Inl e \<Rightarrow> Inl e
                     | Inr improves \<Rightarrow>
                         (let S7 = (if improves then S6\<lparr>Log := Log S6 @ [EvPreservesResourceLen]\<rparr>
                                    else S6)
                          in if improves \<and>
                                preservesResourceLen (TSchedModel MC) (TargetInfo MC) MBB BlockTrace
                                  InsInstrs DelInstrs then
                               Inr (True,
                                 (insertDeleteInstructions MBB MI InsInstrs DelInstrs S7)\<lparr>Changed := True\<rparr>)
                             else
                               (let S8 = foldl (\<lambda>s InstrPtr.
                                            s\<lparr>Log := Log s @ [EvDeleteMachineInstr InstrPtr]\<rparr>) S7 InsInstrs
                                in Inr (False, S8\<lparr>InstrIdxForVirtReg := Map.empty\<rparr>))))))"

text \<open>The loop over the patterns of one anchor: it is left at the first pattern that fires.\<close>

fun tryPatterns ::
  "MachineCombiner \<Rightarrow> nat \<Rightarrow> bool \<Rightarrow> MachineInstr \<Rightarrow> MachineCombinerPattern list \<Rightarrow> State \<Rightarrow>
   error + State" where
  "tryPatterns MC MBB InLoop MI [] S = Inr S"
| "tryPatterns MC MBB InLoop MI (P # Ps) S =
     (case tryPattern MC MBB InLoop MI P S of
        Inl e \<Rightarrow> Inl e
      | Inr (brk, S') \<Rightarrow> if brk then Inr S' else tryPatterns MC MBB InLoop MI Ps S')"

text \<open>The body of the loop over the block, for the anchor \<open>MI\<close>, the iterator already advanced.\<close>

definition visit ::
  "MachineCombiner \<Rightarrow> nat \<Rightarrow> bool \<Rightarrow> MachineInstr \<Rightarrow> State \<Rightarrow> error + State" where
  "visit MC MBB InLoop MI S =
     (let (found, Patterns) = getMachineCombinerPatterns MC (view S) MI
      in if \<not> found then Inr S else tryPatterns MC MBB InLoop MI Patterns S)"

text \<open>
  The loop over the block. The iterator is advanced before the body runs. When the body
  has erased the instruction the iterator points to, the iterator dangles.
\<close>

function combineLoop :: "MachineCombiner \<Rightarrow> nat \<Rightarrow> bool \<Rightarrow> State \<Rightarrow> error + State" where
  "combineLoop MC MBB InLoop S =
     (case AfterIter S of
        [] \<Rightarrow> Inr S
      | MI # rest \<Rightarrow>
          (case visit MC MBB InLoop MI (S\<lparr>BeforeIter := BeforeIter S @ [MI], AfterIter := rest\<rparr>) of
             Inl e \<Rightarrow> Inl e
           | Inr S' \<Rightarrow>
               if rest \<noteq> [] \<and> hd rest \<notin> set (AfterIter S') then Inl DanglingIterator
               else combineLoop MC MBB InLoop S'))"
  by pat_completeness auto

definition combineInstructions :: "MachineCombiner \<Rightarrow> nat \<Rightarrow> State \<Rightarrow> error + (bool \<times> State)" where
  "combineInstructions MC MBB S =
     (let S0 = S\<lparr>BeforeIter := [], AfterIter := BeforeIter S @ AfterIter S, Changed := False\<rparr>;
          InLoop = getLoopFor MC MBB
      in case combineLoop MC MBB InLoop S0 of
           Inl e \<Rightarrow> Inl e
         | Inr S' \<Rightarrow> Inr (Changed S', S'))"

subsection \<open>Notions for the properties of the driver\<close>

text \<open>
  The state in which a candidate is judged, after the first steps of the body of the loop
  over the patterns: the ensemble is there, the analysis was verified, the candidate of
  pattern \<open>P\<close> was synthesized and \<open>Idx\<close> is its map.
\<close>

definition afterSynthesis ::
  "MachineInstr \<Rightarrow> MachineCombinerPattern \<Rightarrow> (u32 \<rightharpoonup> u32) \<Rightarrow> State \<Rightarrow> State" where
  "afterSynthesis MI P Idx S =
     (let S2 = (if \<not> MinInstr S then S\<lparr>MinInstr := True, Log := Log S @ [EvGetEnsemble]\<rparr>
                else S)
      in S2\<lparr>InstrIdxForVirtReg := Idx,
            Log := Log S2 @ [EvVerifyAnalysis, EvGenAlternativeCodeSequence MI P]\<rparr>)"

text \<open>The events of the cost model: a block trace, the two checks, and a release.\<close>

fun costModelEvent :: "event \<Rightarrow> bool" where
  "costModelEvent (EvGetTrace b) = True"
| "costModelEvent EvImprovesCriticalPathLen = True"
| "costModelEvent EvPreservesResourceLen = True"
| "costModelEvent (EvDeleteMachineInstr I) = True"
| "costModelEvent e = False"

section \<open>What the cost model computes, in the words of its description\<close>

text \<open>The virtual registers an instruction uses, and the ones it defines, in operand order.\<close>

fun virtUses :: "Target \<Rightarrow> MachineOperand list \<Rightarrow> u32 list" where
  "virtUses TG [] = []"
| "virtUses TG (MO_Other # MOs) = virtUses TG MOs"
| "virtUses TG (MO_Register r d # MOs) =
     (if isVirtualRegister TG r \<and> \<not> d then r # virtUses TG MOs else virtUses TG MOs)"

fun virtDefs :: "Target \<Rightarrow> MachineOperand list \<Rightarrow> u32 list" where
  "virtDefs TG [] = []"
| "virtDefs TG (MO_Other # MOs) = virtDefs TG MOs"
| "virtDefs TG (MO_Register r d # MOs) =
     (if isVirtualRegister TG r \<and> d then r # virtDefs TG MOs else virtDefs TG MOs)"

text \<open>
  The depth term of one used register: \<open>defDepth + operandLatency\<close>, from the candidate
  itself when the map knows the register, from the trace when the register has a unique
  definition that is not a PHI, and 0 otherwise. \<open>depths\<close> are the depths of the
  instructions of the candidate in front of the current one.
\<close>

definition depthTerm ::
  "TargetSchedModel \<Rightarrow> Target \<Rightarrow> MachineRegisterInfo \<Rightarrow> Trace \<Rightarrow> MachineInstr list \<Rightarrow>
   (u32 \<rightharpoonup> u32) \<Rightarrow> u32 list \<Rightarrow> MachineInstr \<Rightarrow> u32 \<Rightarrow> u32" where
  "depthTerm TSM TG MRI BlockTrace InsInstrs Idx depths I r =
     (case Idx r of
        Some i \<Rightarrow>
          depths ! unat i +
          computeOperandLatency TSM (InsInstrs ! unat i)
            (findRegisterDefOperandIdx TG (InsInstrs ! unat i) r) I (findRegisterUseOperandIdx TG I r)
      | None \<Rightarrow>
          (case getUniqueVRegDef MRI r of
             None \<Rightarrow> 0
           | Some D \<Rightarrow>
               if isPHI D then 0
               else getInstrCyclesDepth BlockTrace D +
                    computeOperandLatency TSM D (findRegisterDefOperandIdx TG D r)
                      I (findRegisterUseOperandIdx TG I r)))"

definition instrDepth ::
  "TargetSchedModel \<Rightarrow> Target \<Rightarrow> MachineRegisterInfo \<Rightarrow> Trace \<Rightarrow> MachineInstr list \<Rightarrow>
   (u32 \<rightharpoonup> u32) \<Rightarrow> u32 list \<Rightarrow> MachineInstr \<Rightarrow> u32" where
  "instrDepth TSM TG MRI BlockTrace InsInstrs Idx depths I =
     Max (insert 0 (depthTerm TSM TG MRI BlockTrace InsInstrs Idx depths I ` set (virtUses TG (Operands I))))"

text \<open>The depths of the first \<open>n\<close> instructions of the candidate, in order.\<close>

fun candidateDepths ::
  "TargetSchedModel \<Rightarrow> Target \<Rightarrow> MachineRegisterInfo \<Rightarrow> Trace \<Rightarrow> MachineInstr list \<Rightarrow>
   (u32 \<rightharpoonup> u32) \<Rightarrow> nat \<Rightarrow> u32 list" where
  "candidateDepths TSM TG MRI BlockTrace InsInstrs Idx 0 = []"
| "candidateDepths TSM TG MRI BlockTrace InsInstrs Idx (Suc n) =
     (let depths = candidateDepths TSM TG MRI BlockTrace InsInstrs Idx n
      in depths @ [instrDepth TSM TG MRI BlockTrace InsInstrs Idx depths (InsInstrs ! n)])"

text \<open>
  The first consuming use in the use-def list of a register: the first operand of the list
  that is not a definition, with the instruction it belongs to.
\<close>

fun firstUse :: "(MachineOperand \<times> MachineInstr option) list \<Rightarrow> MachineInstr option option" where
  "firstUse [] = None"
| "firstUse ((MO_Register r d, U) # es) = (if d then firstUse es else Some U)"
| "firstUse ((MO_Other, U) # es) = firstUse es"

text \<open>
  The latency term of one defined register: the operand latency to the first consuming use
  when the trace has that use depend on the old root, the latency of the new root otherwise.
\<close>

definition latencyTerm ::
  "TargetSchedModel \<Rightarrow> Target \<Rightarrow> MachineRegisterInfo \<Rightarrow> Trace \<Rightarrow> MachineInstr \<Rightarrow> MachineInstr \<Rightarrow>
   u32 \<Rightarrow> u32" where
  "latencyTerm TSM TG MRI BlockTrace Root NewRoot r =
     (case firstUse (reg_begin MRI r) of
        Some (Some U) \<Rightarrow>
          if isDepInTrace BlockTrace Root U then
            computeOperandLatency TSM NewRoot (findRegisterDefOperandIdx TG NewRoot r)
              U (findRegisterUseOperandIdx TG U r)
          else computeInstrLatency TSM NewRoot
      | _ \<Rightarrow> computeInstrLatency TSM NewRoot)"

text \<open>
  The use-def list of a register in SSA form with a use: the definition at its head, a use
  next.
\<close>

fun defThenUse :: "(MachineOperand \<times> MachineInstr option) list \<Rightarrow> bool" where
  "defThenUse ((MO_Register r d, D) # (MO_Register r' d', U) # es) = (d \<and> \<not> d')"
| "defThenUse es = False"

section \<open>A worked example\<close>

text \<open>
  The motivating example of the code: \<open>MUL r3 = r1, r2\<close> feeds the anchor
  \<open>ADD r5 = r3, r4\<close>, whose result \<open>USE\<close> consumes; the candidate is the fused
  \<open>MADD r5 = r1, r2, r4\<close>. A second candidate, \<open>N1\<close> then \<open>N2\<close>, introduces the new
  register \<open>r7\<close>. Virtual registers are the numbers from \<open>0x80000000\<close> on. The latency
  of an instruction depends on its opcode only: 3 for MUL, 4 for MADD, 1 otherwise.
\<close>

definition exMUL :: MachineInstr where
  "exMUL = \<lparr>Addr = 1, Opcode = 10,
     Operands = [MO_Register 0x80000003 True, MO_Register 0x80000001 False,
                 MO_Register 0x80000002 False],
     isPHI = False\<rparr>"

definition exADD :: MachineInstr where
  "exADD = \<lparr>Addr = 2, Opcode = 11,
     Operands = [MO_Register 0x80000005 True, MO_Register 0x80000003 False,
                 MO_Register 0x80000004 False],
     isPHI = False\<rparr>"

definition exMADD :: MachineInstr where
  "exMADD = \<lparr>Addr = 3, Opcode = 12,
     Operands = [MO_Register 0x80000005 True, MO_Register 0x80000001 False,
                 MO_Register 0x80000002 False, MO_Register 0x80000004 False],
     isPHI = False\<rparr>"

definition exUSE :: MachineInstr where
  "exUSE = \<lparr>Addr = 4, Opcode = 13,
     Operands = [MO_Register 0x80000006 True, MO_Register 0x80000005 False],
     isPHI = False\<rparr>"

definition exN1 :: MachineInstr where
  "exN1 = \<lparr>Addr = 5, Opcode = 11,
     Operands = [MO_Register 0x80000007 True, MO_Register 0x80000001 False, MO_Other],
     isPHI = False\<rparr>"

definition exN2 :: MachineInstr where
  "exN2 = \<lparr>Addr = 6, Opcode = 11,
     Operands = [MO_Register 0x80000005 True, MO_Register 0x80000007 False,
                 MO_Register 0x80000003 False, MO_Register 5 False],
     isPHI = False\<rparr>"

definition exIdx :: "u32 \<rightharpoonup> u32" where
  "exIdx = [0x80000007 \<mapsto> 0]"

definition exLatency :: "MachineInstr \<Rightarrow> u32" where
  "exLatency I = (if Opcode I = 10 then 3 else if Opcode I = 12 then 4 else 1)"

definition exTSM :: TargetSchedModel where
  "exTSM = \<lparr>hasInstrSchedModel = True, hasInstrSchedModelOrItineraries = True,
     computeOperandLatency = (\<lambda>D di U ui. exLatency D),
     computeInstrLatency = exLatency\<rparr>"

definition exNoModel :: TargetSchedModel where
  "exNoModel = \<lparr>hasInstrSchedModel = False, hasInstrSchedModelOrItineraries = False,
     computeOperandLatency = (\<lambda>D di U ui. 0),
     computeInstrLatency = (\<lambda>I. 0)\<rparr>"

definition exTG :: Target where
  "exTG = \<lparr>isVirtualRegister = (\<lambda>r. 0x80000000 \<le> r),
     findRegisterDefOperandIdx = (\<lambda>I r. 0),
     findRegisterUseOperandIdx = (\<lambda>I r. 1),
     getSchedClass = (\<lambda>opc. opc),
     getSchedClassDesc = unat\<rparr>"

definition exMRI :: MachineRegisterInfo where
  "exMRI = \<lparr>getUniqueVRegDef =
       (\<lambda>r. if r = 0x80000003 then Some exMUL else if r = 0x80000005 then Some exADD else None),
     reg_begin =
       (\<lambda>r. if r = 0x80000005
            then [(MO_Register 0x80000005 True, Some exADD),
                  (MO_Register 0x80000005 False, Some exUSE)]
            else [])\<rparr>"

text \<open>
  The same register information when nothing consumes the result of the ADD: the use-def
  list of \<open>r5\<close> holds its definition only.
\<close>

definition exMRIdead :: MachineRegisterInfo where
  "exMRIdead = \<lparr>getUniqueVRegDef =
       (\<lambda>r. if r = 0x80000003 then Some exMUL else if r = 0x80000005 then Some exADD else None),
     reg_begin =
       (\<lambda>r. if r = 0x80000005 then [(MO_Register 0x80000005 True, Some exADD)] else [])\<rparr>"

text \<open>
  The trace: the anchor is at depth 3 with no slack; the resource length of the block is
  5, one more for each added class and one less for each removed one.
\<close>

definition exTrace :: Trace where
  "exTrace = \<lparr>getInstrCyclesDepth = (\<lambda>I. if Addr I = 2 then 3 else 0),
     getInstrSlack = (\<lambda>I. 0),
     isDepInTrace = (\<lambda>A B. True),
     getResourceLength = (\<lambda>bs ins del. 5 + of_nat (length ins) - of_nat (length del))\<rparr>"

text \<open>
  The pass on that function: the one block is \<open>MUL, ADD, USE\<close>, the provider finds
  patterns 2 and 0 on the ADD, in that order; it answers pattern 0 with the fused
  candidate, pattern 2 with a candidate that is longer than what it deletes, and any other
  pattern with no new instruction.
\<close>

definition exGen ::
  "MFView \<Rightarrow> MachineInstr \<Rightarrow> MachineCombinerPattern \<Rightarrow>
   MachineInstr list \<times> MachineInstr list \<times> (u32 \<rightharpoonup> u32)" where
  "exGen v MI P =
     (if P = OTHER_PATTERN 0 then ([exMADD], [exMUL, exADD], Map.empty)
      else if P = OTHER_PATTERN 2 then ([exN1, exN2], [exADD], exIdx)
      else ([], [exMUL, exADD], Map.empty))"

definition exMC :: MachineCombiner where
  "exMC = \<lparr>OptSize = False, TSchedModel = exTSM, TargetInfo = exTG,
     RegInfo = (\<lambda>v. exMRI), getLoopFor = (\<lambda>b. False), getTrace = (\<lambda>v b. exTrace),
     getMachineCombinerPatterns =
       (\<lambda>v MI. if Addr MI = 2 then (True, [OTHER_PATTERN 2, OTHER_PATTERN 0]) else (False, [])),
     genAlternativeCodeSequence = exGen,
     isThroughputPattern = (\<lambda>P. False)\<rparr>"

definition exState :: State where
  "exState = \<lparr>BeforeIter = [exMUL, exADD], AfterIter = [exUSE], Others = [],
     MinInstr = False, NumInstCombined = 0, InstrIdxForVirtReg = Map.empty,
     Changed = False, Log = []\<rparr>"

text \<open>The same pass when optimizing for size, and when there is no scheduling model.\<close>

definition exMCsize :: MachineCombiner where
  "exMCsize = exMC\<lparr>OptSize := True\<rparr>"

definition exMCnomodel :: MachineCombiner where
  "exMCnomodel = exMC\<lparr>TSchedModel := exNoModel\<rparr>"

text \<open>The block with the iterator at the ADD.\<close>

definition exStart :: State where
  "exStart = \<lparr>BeforeIter = [exMUL], AfterIter = [exADD, exUSE], Others = [],
     MinInstr = False, NumInstCombined = 0, InstrIdxForVirtReg = Map.empty,
     Changed = False, Log = []\<rparr>"

text \<open>
  The states the example runs through: the candidate of pattern 2 turned down at the ADD,
  and the block when the ADD has been visited.
\<close>

definition exRejected :: State where
  "exRejected = \<lparr>BeforeIter = [exMUL, exADD], AfterIter = [exUSE], Others = [],
     MinInstr = True, NumInstCombined = 0, InstrIdxForVirtReg = Map.empty,
     Changed = False,
     Log = [EvGetEnsemble, EvVerifyAnalysis,
            EvGenAlternativeCodeSequence exADD (OTHER_PATTERN 2),
            EvGetTrace 0, EvImprovesCriticalPathLen, EvPreservesResourceLen,
            EvDeleteMachineInstr exN1, EvDeleteMachineInstr exN2]\<rparr>"

definition exCombined :: State where
  "exCombined = \<lparr>BeforeIter = [exMADD], AfterIter = [exUSE], Others = [],
     MinInstr = True, NumInstCombined = 1, InstrIdxForVirtReg = Map.empty,
     Changed = True,
     Log = [EvGetEnsemble, EvVerifyAnalysis,
            EvGenAlternativeCodeSequence exADD (OTHER_PATTERN 2),
            EvGetTrace 0, EvImprovesCriticalPathLen, EvPreservesResourceLen,
            EvDeleteMachineInstr exN1, EvDeleteMachineInstr exN2,
            EvVerifyAnalysis,
            EvGenAlternativeCodeSequence exADD (OTHER_PATTERN 0),
            EvGetTrace 0, EvImprovesCriticalPathLen, EvPreservesResourceLen,
            EvInvalidate 0, EvVerifyAnalysis]\<rparr>"

lemmas ex_defs = exMUL_def exADD_def exMADD_def exUSE_def exN1_def exN2_def exLatency_def
  exTSM_def exNoModel_def exTG_def exMRI_def exTrace_def

section \<open>Properties of the cost model\<close>

subsection \<open>Auxiliary facts\<close>

lemma foldl_add_sum_list:
  "foldl (\<lambda>acc I. acc + f I) (a::u32) xs = a + sum_list (map f xs)"
  by (induction xs arbitrary: a) (simp_all add: add.assoc)

lemma getDepth_Inr_nonempty:
  "getDepth tsm tg mri Ins idx T = Inr nd \<Longrightarrow> hasInstrSchedModelOrItineraries tsm \<and> Ins \<noteq> []"
  by (auto simp: getDepth_def split: if_splits sum.splits)

lemma unat_sum_list_no_overflow:
  "sum_list (map unat (ws :: u32 list)) < 2 ^ 32 \<Longrightarrow> unat (sum_list ws) = sum_list (map unat ws)"
proof (induction ws)
  case Nil
  then show ?case by simp
next
  case (Cons w ws)
  then have "sum_list (map unat ws) < 2 ^ 32" by simp
  with Cons have ih: "unat (sum_list ws) = sum_list (map unat ws)" by simp
  have "unat (w + sum_list ws) = (unat w + unat (sum_list ws)) mod 2 ^ 32"
    by (simp add: unat_word_ariths)
  with ih Cons.prems show ?case by simp
qed

lemma cycle_count_no_overflow:
  fixes nd nl rd rs :: u32 and ls :: "u32 list"
  assumes "unat nd + unat nl < 2 ^ 32"
    and "unat rd + sum_list (map unat ls) + unat rs < 2 ^ 32"
  shows "(nd + nl \<le> rd + sum_list ls + rs) =
         (unat nd + unat nl \<le> unat rd + sum_list (map unat ls) + unat rs)"
proof -
  from assms(2) have "sum_list (map unat ls) < 2 ^ 32" by simp
  then have s: "unat (sum_list ls) = sum_list (map unat ls)"
    by (rule unat_sum_list_no_overflow)
  have a: "unat (nd + nl) = unat nd + unat nl"
    using assms(1) by (simp add: unat_word_ariths)
  have "unat (rd + sum_list ls) = unat rd + sum_list (map unat ls)"
    using assms(2) s by (simp add: unat_word_ariths)
  then have b: "unat (rd + sum_list ls + rs) = unat rd + sum_list (map unat ls) + unat rs"
    using assms(2) by (simp add: unat_word_ariths)
  show ?thesis
    by (simp add: word_le_nat_alt a b)
qed

lemma Max_insert_max:
  fixes a b :: "'a::linorder"
  assumes "finite S"
  shows "Max (insert (max a b) S) = Max (insert a (insert b S))"
proof (cases "S = {}")
  case True
  then show ?thesis by (simp add: max.commute)
next
  case False
  with assms show ?thesis by (simp add: max.assoc)
qed

lemma Max_insert_zero:
  fixes a :: u32
  assumes "finite S"
  shows "max a (Max (insert 0 S)) = Max (insert a S)"
proof (cases "S = {}")
  case True
  then show ?thesis by (simp add: max_def)
next
  case False
  have "max (0::u32) x = x" for x by (simp add: max_def)
  with False assms show ?thesis by simp
qed

subsection \<open>The critical path check, default objective\<close>

text \<open>
  C1. For a pattern whose objective is \<open>Default\<close>, with \<open>NewRootDepth\<close> the result of
  \<open>getDepth\<close> on the candidate and \<open>NewRootLatency\<close> the result of \<open>getLatency\<close> on the
  root and the new root (the last instruction of the candidate),
  \<open>improvesCriticalPathLen\<close> accepts exactly when
  \<open>NewRootDepth + NewRootLatency \<le> RootDepth + RootLatency + RootSlack\<close>, where
  \<open>RootDepth\<close> and \<open>RootSlack\<close> are the trace's depth and slack of the root and
  \<open>RootLatency\<close> is the sum of the instruction latencies of the deleted instructions.
  The sums are the code's, on 32-bit unsigned numbers; where neither side exceeds the
  32 bits, the comparison is the one of the numbers themselves.
\<close>

theorem improvesCriticalPathLen_Default:
  assumes obj: "getCombinerObjective P = Default"
    and depth: "getDepth tsm tg mri Ins idx T = Inr NewRootDepth"
    and lat: "getLatency tsm tg mri Root (last Ins) T = Inr NewRootLatency"
  shows "improvesCriticalPathLen tsm tg mri mbb Root T Ins Del idx P =
           Inr (NewRootDepth + NewRootLatency
                  \<le> getInstrCyclesDepth T Root + sum_list (map (computeInstrLatency tsm) Del)
                      + getInstrSlack T Root)
         \<and> (unat NewRootDepth + unat NewRootLatency < 2 ^ 32 \<longrightarrow>
            unat (getInstrCyclesDepth T Root)
              + sum_list (map unat (map (computeInstrLatency tsm) Del))
              + unat (getInstrSlack T Root) < 2 ^ 32 \<longrightarrow>
            (improvesCriticalPathLen tsm tg mri mbb Root T Ins Del idx P = Inr True) =
            (unat NewRootDepth + unat NewRootLatency
               \<le> unat (getInstrCyclesDepth T Root)
                   + sum_list (map unat (map (computeInstrLatency tsm) Del))
                   + unat (getInstrSlack T Root)))"
proof -
  from depth have m: "hasInstrSchedModelOrItineraries tsm" and ne: "Ins \<noteq> []"
    using getDepth_Inr_nonempty by blast+
  from ne have l: "Ins ! (length Ins - Suc 0) = last Ins"
    by (simp add: last_conv_nth)
  have eq: "improvesCriticalPathLen tsm tg mri mbb Root T Ins Del idx P =
           Inr (NewRootDepth + NewRootLatency
                  \<le> getInstrCyclesDepth T Root + sum_list (map (computeInstrLatency tsm) Del)
                      + getInstrSlack T Root)"
    using obj depth lat m ne
    by (simp add: improvesCriticalPathLen_def Let_def l foldl_add_sum_list)
  show ?thesis
    using cycle_count_no_overflow
      [of NewRootDepth NewRootLatency "getInstrCyclesDepth T Root"
          "map (computeInstrLatency tsm) Del" "getInstrSlack T Root"]
    by (simp add: eq)
qed

theorem improvesCriticalPathLen_Default_witness:
  "getCombinerObjective (OTHER_PATTERN 0) = Default \<and>
   getDepth exTSM exTG exMRI [exMADD] Map.empty exTrace = Inr 0 \<and>
   getLatency exTSM exTG exMRI exADD (last [exMADD]) exTrace = Inr 4 \<and>
   improvesCriticalPathLen exTSM exTG exMRI 0 exADD exTrace [exMADD] [exMUL, exADD] Map.empty
     (OTHER_PATTERN 0) = Inr True"
proof -
  have obj: "getCombinerObjective (OTHER_PATTERN 0) = Default" by simp
  have d: "getDepth exTSM exTG exMRI [exMADD] Map.empty exTrace = Inr 0"
    by (simp add: getDepth_def getOperandDef_def ex_defs)
  have l: "getLatency exTSM exTG exMRI exADD (last [exMADD]) exTrace = Inr 4"
    by (simp add: getLatency_def ex_defs)
  have "improvesCriticalPathLen exTSM exTG exMRI 0 exADD exTrace [exMADD] [exMUL, exADD] Map.empty
     (OTHER_PATTERN 0) = Inr True"
    using improvesCriticalPathLen_Default [OF obj d l, of 0 "[exMUL, exADD]"]
    by (simp add: ex_defs)
  with obj d l show ?thesis by simp
qed

subsection \<open>The critical path check, reassociation\<close>

lemma getDepth_operands_indep:
  "getDepth_operands (tsm\<lparr>computeInstrLatency := cil\<rparr>) tg (mri\<lparr>reg_begin := rb\<rparr>)
      (T\<lparr>getInstrSlack := sl, isDepInTrace := dit\<rparr>) Ins idx ds I ops acc =
   getDepth_operands tsm tg mri T Ins idx ds I ops acc"
  by (induction ops arbitrary: acc)
     (simp_all add: getOperandDef_def Let_def split: MachineOperand.splits option.splits)

lemma getDepth_instrs_indep:
  "getDepth_instrs (tsm\<lparr>computeInstrLatency := cil\<rparr>) tg (mri\<lparr>reg_begin := rb\<rparr>)
      (T\<lparr>getInstrSlack := sl, isDepInTrace := dit\<rparr>) Ins idx rest ds =
   getDepth_instrs tsm tg mri T Ins idx rest ds"
  by (induction rest arbitrary: ds) (simp_all add: getDepth_operands_indep split: sum.splits)

lemma getDepth_indep:
  "getDepth (tsm\<lparr>computeInstrLatency := cil\<rparr>) tg (mri\<lparr>reg_begin := rb\<rparr>) Ins idx
      (T\<lparr>getInstrSlack := sl, isDepInTrace := dit\<rparr>) =
   getDepth tsm tg mri Ins idx T"
  by (simp add: getDepth_def getDepth_instrs_indep)

lemma improves_MustReduceDepth:
  assumes "getCombinerObjective P = MustReduceDepth"
  shows "improvesCriticalPathLen tsm tg mri mbb Root T Ins Del idx P =
         (case getDepth tsm tg mri Ins idx T of
            Inl e \<Rightarrow> Inl e
          | Inr NewRootDepth \<Rightarrow> Inr (NewRootDepth < getInstrCyclesDepth T Root))"
  using assms
  by (auto simp: improvesCriticalPathLen_def Let_def getDepth_def split: sum.splits)

text \<open>
  C2. The four reassociation patterns, and no others, have the objective
  \<open>MustReduceDepth\<close>, and for them
  \<open>improvesCriticalPathLen\<close> fails where \<open>getDepth\<close> fails and otherwise accepts exactly
  when the depth \<open>getDepth\<close> computes for the new root is strictly less than the trace's
  depth of the root. Latency, the latencies of the deleted instructions and slack are not
  consulted: the result is the same for any other instruction latencies, use-def lists,
  slacks, in-trace dependences and deleted instructions.
\<close>

theorem improvesCriticalPathLen_MustReduceDepth:
  assumes P: "P \<in> {REASSOC_AX_BY, REASSOC_AX_YB, REASSOC_XA_BY, REASSOC_XA_YB}"
  shows "getCombinerObjective P = MustReduceDepth \<and>
         (\<forall>Q. (getCombinerObjective Q = MustReduceDepth) =
                (Q \<in> {REASSOC_AX_BY, REASSOC_AX_YB, REASSOC_XA_BY, REASSOC_XA_YB})) \<and>
         improvesCriticalPathLen tsm tg mri mbb Root T Ins Del idx P =
           (case getDepth tsm tg mri Ins idx T of
              Inl e \<Rightarrow> Inl e
            | Inr NewRootDepth \<Rightarrow> Inr (NewRootDepth < getInstrCyclesDepth T Root)) \<and>
         improvesCriticalPathLen (tsm\<lparr>computeInstrLatency := cil\<rparr>) tg (mri\<lparr>reg_begin := rb\<rparr>) mbb Root
             (T\<lparr>getInstrSlack := sl, isDepInTrace := dit\<rparr>) Ins Del' idx P =
           improvesCriticalPathLen tsm tg mri mbb Root T Ins Del idx P"
proof -
  from P have obj: "getCombinerObjective P = MustReduceDepth" by auto
  have four: "(getCombinerObjective Q = MustReduceDepth) =
                (Q \<in> {REASSOC_AX_BY, REASSOC_AX_YB, REASSOC_XA_BY, REASSOC_XA_YB})" for Q
    by (cases Q) simp_all
  show ?thesis
    using obj four by (simp add: improves_MustReduceDepth getDepth_indep split: sum.splits)
qed

theorem improvesCriticalPathLen_MustReduceDepth_witness:
  "REASSOC_XA_BY \<in> {REASSOC_AX_BY, REASSOC_AX_YB, REASSOC_XA_BY, REASSOC_XA_YB} \<and>
   improvesCriticalPathLen exTSM exTG exMRI 0 exADD exTrace [exMADD] [exMUL, exADD] Map.empty
     REASSOC_XA_BY = Inr True \<and>
   improvesCriticalPathLen exTSM exTG exMRI 0 exADD exTrace [exN1, exN2] [exMUL, exADD]
     [0x80000007 \<mapsto> 0] REASSOC_XA_BY = Inr False"
proof -
  have P: "REASSOC_XA_BY \<in> {REASSOC_AX_BY, REASSOC_AX_YB, REASSOC_XA_BY, REASSOC_XA_YB}"
    by simp
  have d1: "getDepth exTSM exTG exMRI [exMADD] Map.empty exTrace = Inr 0"
    by (simp add: getDepth_def getOperandDef_def ex_defs)
  have d2: "getDepth exTSM exTG exMRI [exN1, exN2] [0x80000007 \<mapsto> 0] exTrace = Inr 3"
    by (simp add: getDepth_def getOperandDef_def ex_defs)
  have t: "getInstrCyclesDepth exTrace exADD = 3"
    by (simp add: ex_defs)
  from improvesCriticalPathLen_MustReduceDepth
         [OF P, of exTSM exTG exMRI 0 exADD exTrace "[exMADD]" "[exMUL, exADD]" Map.empty]
       improvesCriticalPathLen_MustReduceDepth
         [OF P, of exTSM exTG exMRI 0 exADD exTrace "[exN1, exN2]" "[exMUL, exADD]"
            "[0x80000007 \<mapsto> 0]"]
  show ?thesis
    by (simp add: d1 d2 t)
qed

subsection \<open>The resource length check\<close>

lemma instr2instrSC_map:
  "instr2instrSC tg Is acc = acc @ map (\<lambda>I. getSchedClassDesc tg (getSchedClass tg (Opcode I))) Is"
  by (induction Is arbitrary: acc) (simp_all add: Let_def)

text \<open>
  C5. \<open>preservesResourceLen\<close> is true when the scheduling model has no instruction-level
  model. Otherwise it is true exactly when the resource length the trace gives for the
  block with the scheduling class descriptors of the candidate added and those of the
  deleted instructions removed does not exceed the resource length it gives for the block
  as it is.
\<close>

theorem preservesResourceLen_spec:
  "preservesResourceLen tsm tg mbb T Ins Del =
     (if hasInstrSchedModel tsm then
        getResourceLength T [mbb]
          (map (\<lambda>I. getSchedClassDesc tg (getSchedClass tg (Opcode I))) Ins)
          (map (\<lambda>I. getSchedClassDesc tg (getSchedClass tg (Opcode I))) Del)
        \<le> getResourceLength T [mbb] [] []
      else True)"
  by (simp add: preservesResourceLen_def instr2instrSC_map Let_def)

theorem preservesResourceLen_spec_witness:
  "preservesResourceLen exNoModel exTG 0 exTrace [exN1, exMADD] [exADD] \<and>
   preservesResourceLen exTSM exTG 0 exTrace [exMADD] [exMUL, exADD] \<and>
   \<not> preservesResourceLen exTSM exTG 0 exTrace [exN1, exMADD] [exADD]"
  using preservesResourceLen_spec [of exNoModel exTG 0 exTrace "[exN1, exMADD]" "[exADD]"]
    preservesResourceLen_spec [of exTSM exTG 0 exTrace "[exMADD]" "[exMUL, exADD]"]
    preservesResourceLen_spec [of exTSM exTG 0 exTrace "[exN1, exMADD]" "[exADD]"]
  by (simp add: ex_defs)

subsection \<open>The depth of a candidate\<close>

lemma getDepth_operands_Max:
  "(\<forall>r \<in> set (virtUses tg ops). \<forall>i. idx r = Some i \<longrightarrow> unat i < length ds) \<Longrightarrow>
   getDepth_operands tsm tg mri T Ins idx ds I ops acc =
     Inr (Max (insert acc (depthTerm tsm tg mri T Ins idx ds I ` set (virtUses tg ops))))"
proof (induction ops arbitrary: acc)
  case Nil
  then show ?case by simp
next
  case (Cons MO MOs)
  show ?case
  proof (cases MO)
    case MO_Other
    with Cons show ?thesis by simp
  next
    case (MO_Register r d)
    show ?thesis
    proof (cases "isVirtualRegister tg r \<and> \<not> d")
      case False
      with Cons MO_Register show ?thesis by auto
    next
      case True
      from Cons.prems MO_Register True
      have rest: "\<forall>r \<in> set (virtUses tg MOs). \<forall>i. idx r = Some i \<longrightarrow> unat i < length ds"
        and here: "\<forall>i. idx r = Some i \<longrightarrow> unat i < length ds"
        by simp_all
      note IH = Cons.IH [OF rest]
      show ?thesis
      proof (cases "idx r")
        case (Some i)
        with here have "unat i < length ds" by simp
        with Some True MO_Register IH show ?thesis
          by (simp add: Let_def depthTerm_def Max_insert_max)
      next
        case None
        show ?thesis
        proof (cases "getOperandDef tg mri MO")
          case gnone: None
          with MO_Register True have "depthTerm tsm tg mri T Ins idx ds I r = 0"
            by (auto simp: depthTerm_def getOperandDef_def None split: option.splits if_splits)
          with None gnone True MO_Register IH show ?thesis
            by (simp add: Let_def Max_insert_zero)
        next
          case (Some D)
          with MO_Register True have "depthTerm tsm tg mri T Ins idx ds I r =
              getInstrCyclesDepth T D +
              computeOperandLatency tsm D (findRegisterDefOperandIdx tg D r) I
                (findRegisterUseOperandIdx tg I r)"
            by (auto simp: depthTerm_def getOperandDef_def None split: option.splits if_splits)
          with None Some True MO_Register IH show ?thesis
            by (simp add: Let_def Max_insert_max)
        qed
      qed
    qed
  qed
qed

lemma length_candidateDepths [simp]:
  "length (candidateDepths tsm tg mri T Ins idx n) = n"
  by (induction n) (simp_all add: Let_def)

lemma getDepth_instrs_candidateDepths:
  assumes wf: "\<forall>k < length Ins. \<forall>r \<in> set (virtUses tg (Operands (Ins ! k))).
                 \<forall>i. idx r = Some i \<longrightarrow> unat i < k"
  shows "Ins = done @ rest \<Longrightarrow>
     getDepth_instrs tsm tg mri T Ins idx rest (candidateDepths tsm tg mri T Ins idx (length done)) =
       Inr (candidateDepths tsm tg mri T Ins idx (length Ins))"
proof (induction rest arbitrary: "done")
  case Nil
  then show ?case by simp
next
  case (Cons I rest)
  let ?ds = "candidateDepths tsm tg mri T Ins idx (length done)"
  from Cons.prems have k: "length done < length Ins" and I: "Ins ! length done = I"
    by simp_all
  from wf k I have "\<forall>r \<in> set (virtUses tg (Operands I)). \<forall>i. idx r = Some i \<longrightarrow> unat i < length ?ds"
    by auto
  from getDepth_operands_Max [OF this]
  have step: "getDepth_operands tsm tg mri T Ins idx ?ds I (Operands I) 0 =
      Inr (instrDepth tsm tg mri T Ins idx ?ds I)"
    by (simp add: instrDepth_def)
  from Cons.prems have "Ins = (done @ [I]) @ rest" by simp
  from Cons.IH [OF this] step I show ?case
    by (simp add: Let_def)
qed

text \<open>
  C6. With a scheduling model, on a candidate that is not empty and whose map sends each
  virtual register an instruction uses to the index of an instruction in front of it,
  \<open>getDepth\<close> returns the depth of the last instruction, where the depths are assigned in
  order and each is the maximum, over the virtual registers the instruction uses, of the
  depth of the definition plus the operand latency (0 when it uses none): the depth just
  computed for the earlier instruction when the map knows the register, the trace's depth
  of the unique definition when there is one and it is not a PHI, and 0 for a PHI or no
  definition.
\<close>

theorem getDepth_spec:
  assumes m: "hasInstrSchedModelOrItineraries tsm"
    and ne: "Ins \<noteq> []"
    and wf: "\<forall>k < length Ins. \<forall>r \<in> set (virtUses tg (Operands (Ins ! k))).
               \<forall>i. idx r = Some i \<longrightarrow> unat i < k"
  shows "getDepth tsm tg mri Ins idx T =
           Inr (last (candidateDepths tsm tg mri T Ins idx (length Ins)))"
proof -
  from getDepth_instrs_candidateDepths [OF wf, of "[]" Ins tsm mri T]
  have "getDepth_instrs tsm tg mri T Ins idx Ins [] =
          Inr (candidateDepths tsm tg mri T Ins idx (length Ins))"
    by simp
  moreover from ne have "candidateDepths tsm tg mri T Ins idx (length Ins) \<noteq> []"
    by (metis length_candidateDepths length_0_conv)
  ultimately show ?thesis
    using m ne by (simp add: getDepth_def Let_def last_conv_nth)
qed

theorem getDepth_spec_witness:
  "hasInstrSchedModelOrItineraries exTSM \<and> [exN1, exN2] \<noteq> [] \<and>
   last (candidateDepths exTSM exTG exMRI exTrace [exN1, exN2] exIdx 2) = 3 \<and>
   getDepth exTSM exTG exMRI [exN1, exN2] exIdx exTrace = Inr 3"
proof -
  have m: "hasInstrSchedModelOrItineraries exTSM" by (simp add: ex_defs)
  have ne: "[exN1, exN2] \<noteq> []" by simp
  have u1: "virtUses exTG (Operands exN1) = [0x80000001]" by (simp add: ex_defs)
  have u2: "virtUses exTG (Operands exN2) = [0x80000007, 0x80000003]" by (simp add: ex_defs)
  have wf: "\<forall>k < length [exN1, exN2].
              \<forall>r \<in> set (virtUses exTG (Operands ([exN1, exN2] ! k))).
                \<forall>i. exIdx r = Some i \<longrightarrow> unat i < k"
  proof (intro allI impI)
    fix k :: nat
    assume "k < length [exN1, exN2]"
    then have "k = 0 \<or> k = 1" by auto
    then show "\<forall>r \<in> set (virtUses exTG (Operands ([exN1, exN2] ! k))).
                \<forall>i. exIdx r = Some i \<longrightarrow> unat i < k"
      by (auto simp: u1 u2 exIdx_def)
  qed
  have c0: "candidateDepths exTSM exTG exMRI exTrace [exN1, exN2] exIdx (Suc 0) = [0]"
    by (simp add: instrDepth_def depthTerm_def u1 exIdx_def) (simp add: ex_defs)
  have c1: "candidateDepths exTSM exTG exMRI exTrace [exN1, exN2] exIdx (Suc (Suc 0))
              = [0, 3]"
    unfolding candidateDepths.simps(2) [of _ _ _ _ _ _ "Suc 0"] c0
    by (simp add: instrDepth_def depthTerm_def u2 exIdx_def) (simp add: ex_defs)
  have c: "last (candidateDepths exTSM exTG exMRI exTrace [exN1, exN2] exIdx 2) = 3"
    by (simp add: numeral_2_eq_2 c1 del: candidateDepths.simps)
  from getDepth_spec [OF m ne wf, of exMRI exTrace] c m show ?thesis
    by (simp add: numeral_2_eq_2 del: candidateDepths.simps)
qed

subsection \<open>The latency of the new root\<close>

lemma defThenUse_elim:
  assumes "defThenUse l"
  obtains r D r' U es where "l = (MO_Register r True, D) # (MO_Register r' False, U) # es"
  using assms by (cases l rule: defThenUse.cases) auto

lemma getLatency_operands_Max:
  "(\<forall>r \<in> set (virtDefs tg ops). defThenUse (reg_begin mri r)) \<Longrightarrow>
   getLatency_operands tsm tg mri T Root NewRoot ops acc =
     Inr (Max (insert acc (latencyTerm tsm tg mri T Root NewRoot ` set (virtDefs tg ops))))"
proof (induction ops arbitrary: acc)
  case Nil
  then show ?case by simp
next
  case (Cons MO MOs)
  show ?case
  proof (cases MO)
    case MO_Other
    with Cons show ?thesis by simp
  next
    case (MO_Register r d)
    show ?thesis
    proof (cases "isVirtualRegister tg r \<and> d")
      case False
      with Cons MO_Register show ?thesis by auto
    next
      case True
      with Cons.prems MO_Register have "defThenUse (reg_begin mri r)" by simp
      then obtain r1 D r2 U es
        where l: "reg_begin mri r = (MO_Register r1 True, D) # (MO_Register r2 False, U) # es"
        by (rule defThenUse_elim)
      from l have t: "latencyTerm tsm tg mri T Root NewRoot r =
          (case U of
             Some U' \<Rightarrow>
               if isDepInTrace T Root U' then
                 computeOperandLatency tsm NewRoot (findRegisterDefOperandIdx tg NewRoot r)
                   U' (findRegisterUseOperandIdx tg U' r)
               else computeInstrLatency tsm NewRoot
           | None \<Rightarrow> computeInstrLatency tsm NewRoot)"
        by (simp add: latencyTerm_def split: option.splits)
      from Cons.prems MO_Register True
      have "\<forall>r \<in> set (virtDefs tg MOs). defThenUse (reg_begin mri r)" by simp
      from Cons.IH [OF this] True MO_Register l t show ?thesis
        by (simp add: Let_def Max_insert_max)
    qed
  qed
qed

text \<open>
  Where the use-def list of every virtual register the new root defines holds the
  definition and then a use, the entry the code takes is the first consuming use, and
  \<open>getLatency\<close> returns the maximum of the latency terms of the description, 0 when the
  new root defines no virtual register.
\<close>

lemma getLatency_defThenUse:
  assumes "hasInstrSchedModelOrItineraries tsm"
    and "\<forall>r \<in> set (virtDefs tg (Operands NewRoot)). defThenUse (reg_begin mri r)"
  shows "getLatency tsm tg mri Root NewRoot T =
           Inr (Max (insert 0 (latencyTerm tsm tg mri T Root NewRoot `
                                 set (virtDefs tg (Operands NewRoot)))))
         \<and> (virtDefs tg (Operands NewRoot) = [] \<longrightarrow> getLatency tsm tg mri Root NewRoot T = Inr 0)"
  using assms getLatency_operands_Max [OF assms(2)]
  by (simp add: getLatency_def)

lemma getLatency_defThenUse_example:
  "hasInstrSchedModelOrItineraries exTSM \<and>
   virtDefs exTG (Operands exMADD) = [0x80000005] \<and>
   defThenUse (reg_begin exMRI 0x80000005) \<and>
   latencyTerm exTSM exTG exMRI exTrace exADD exMADD 0x80000005 = 4 \<and>
   getLatency exTSM exTG exMRI exADD exMADD exTrace = Inr 4"
proof -
  have m: "hasInstrSchedModelOrItineraries exTSM" by (simp add: ex_defs)
  have v: "virtDefs exTG (Operands exMADD) = [0x80000005]" by (simp add: ex_defs)
  have u: "\<forall>r \<in> set (virtDefs exTG (Operands exMADD)). defThenUse (reg_begin exMRI r)"
    by (simp add: v) (simp add: ex_defs)
  have t: "latencyTerm exTSM exTG exMRI exTrace exADD exMADD 0x80000005 = 4"
    by (simp add: latencyTerm_def ex_defs)
  have d: "defThenUse (reg_begin exMRI 0x80000005)" by (simp add: ex_defs)
  from getLatency_defThenUse [OF m u, of exADD exTrace] m d v t show ?thesis
    by simp
qed

text \<open>
  C7. The description has \<open>getLatency\<close> return the maximum of the latency terms of the
  virtual registers the new root defines, a register without a recognized consuming use
  falling back to the instruction latency of the new root. The code does not do so when
  the register has no use: with a scheduling model, the new root MADD defining \<open>r5\<close>,
  and the use-def list of \<open>r5\<close> holding the definition by the ADD only, the list has no
  consuming use, the latency term of \<open>r5\<close> is the instruction latency 4 of the new root
  and the maximum of the description is 4, but the code steps its iterator to the end of
  the list, dereferences it, and fails. The test of the instruction found against null
  comes after the dereference.
\<close>

theorem getLatency_no_use_fails:
  "hasInstrSchedModelOrItineraries exTSM \<and>
   virtDefs exTG (Operands exMADD) = [0x80000005] \<and>
   reg_begin exMRIdead 0x80000005 = [(MO_Register 0x80000005 True, Some exADD)] \<and>
   firstUse (reg_begin exMRIdead 0x80000005) = None \<and>
   latencyTerm exTSM exTG exMRIdead exTrace exADD exMADD 0x80000005 = 4 \<and>
   Max (insert 0 (latencyTerm exTSM exTG exMRIdead exTrace exADD exMADD `
                    set (virtDefs exTG (Operands exMADD)))) = 4 \<and>
   getLatency exTSM exTG exMRIdead exADD exMADD exTrace = Inl EndIterator"
proof -
  have m: "hasInstrSchedModelOrItineraries exTSM" by (simp add: ex_defs)
  have v: "virtDefs exTG (Operands exMADD) = [0x80000005]" by (simp add: ex_defs)
  have r: "reg_begin exMRIdead 0x80000005 = [(MO_Register 0x80000005 True, Some exADD)]"
    by (simp add: exMRIdead_def)
  have f: "firstUse (reg_begin exMRIdead 0x80000005) = None" by (simp add: r)
  have t: "latencyTerm exTSM exTG exMRIdead exTrace exADD exMADD 0x80000005 = 4"
    by (simp add: latencyTerm_def f) (simp add: ex_defs)
  have g: "getLatency exTSM exTG exMRIdead exADD exMADD exTrace = Inl EndIterator"
    by (simp add: getLatency_def exMRIdead_def ex_defs)
  from m v r f t g show ?thesis by simp
qed

subsection \<open>When the latency computation is safe\<close>

lemma getLatency_operands_safe:
  "(\<forall>r \<in> set (virtDefs tg ops). 2 \<le> length (reg_begin mri r)) \<Longrightarrow>
   \<exists>v. getLatency_operands tsm tg mri T Root NewRoot ops acc = Inr v"
proof (induction ops arbitrary: acc)
  case Nil
  then show ?case by simp
next
  case (Cons MO MOs)
  show ?case
  proof (cases MO)
    case MO_Other
    with Cons show ?thesis by simp
  next
    case (MO_Register r d)
    show ?thesis
    proof (cases "isVirtualRegister tg r \<and> d")
      case False
      with Cons MO_Register show ?thesis by auto
    next
      case True
      with Cons.prems MO_Register have "2 \<le> length (reg_begin mri r)" by simp
      then obtain e1 e2 es where l: "reg_begin mri r = e1 # e2 # es"
        by (cases "reg_begin mri r"; cases "tl (reg_begin mri r)") auto
      obtain mo U where e2: "e2 = (mo, U)" by (cases e2)
      from Cons.prems MO_Register True
      have "\<forall>r \<in> set (virtDefs tg MOs). 2 \<le> length (reg_begin mri r)" by simp
      from Cons.IH [OF this] True MO_Register l e2 show ?thesis
        by (simp add: Let_def)
    qed
  qed
qed

lemma getLatency_operands_unsafe:
  "\<exists>r \<in> set (virtDefs tg ops). length (reg_begin mri r) < 2 \<Longrightarrow>
   getLatency_operands tsm tg mri T Root NewRoot ops acc = Inl EndIterator"
proof (induction ops arbitrary: acc)
  case Nil
  then show ?case by simp
next
  case (Cons MO MOs)
  show ?case
  proof (cases MO)
    case MO_Other
    with Cons show ?thesis by simp
  next
    case (MO_Register r d)
    show ?thesis
    proof (cases "isVirtualRegister tg r \<and> d")
      case False
      with Cons MO_Register show ?thesis by auto
    next
      case True
      show ?thesis
      proof (cases "length (reg_begin mri r) < 2")
        case short: True
        then have "reg_begin mri r = [] \<or> (\<exists>e. reg_begin mri r = [e])"
          by (cases "reg_begin mri r"; cases "tl (reg_begin mri r)") auto
        with True MO_Register show ?thesis by auto
      next
        case False
        then obtain e1 e2 es where l: "reg_begin mri r = e1 # e2 # es"
          by (cases "reg_begin mri r"; cases "tl (reg_begin mri r)") auto
        obtain mo U where e2: "e2 = (mo, U)" by (cases e2)
        from Cons.prems MO_Register True False
        have "\<exists>r \<in> set (virtDefs tg MOs). length (reg_begin mri r) < 2" by auto
        from Cons.IH [OF this] True MO_Register l e2 show ?thesis
          by (simp add: Let_def)
      qed
    qed
  qed
qed

text \<open>
  C10. With a scheduling model, \<open>getLatency\<close> returns a value if the use-def list of every
  virtual register the new root defines has at least two entries, and otherwise fails on
  its iterator: the iterator is taken at the head of the list, stepped once and
  dereferenced, whatever the instruction found there, so the test of that instruction
  against null does not protect the step.
\<close>

theorem getLatency_safe_iff:
  assumes "hasInstrSchedModelOrItineraries tsm"
  shows "(if \<forall>r \<in> set (virtDefs tg (Operands NewRoot)). 2 \<le> length (reg_begin mri r)
          then \<exists>v. getLatency tsm tg mri Root NewRoot T = Inr v
          else getLatency tsm tg mri Root NewRoot T = Inl EndIterator)"
proof (cases "\<forall>r \<in> set (virtDefs tg (Operands NewRoot)). 2 \<le> length (reg_begin mri r)")
  case True
  with assms getLatency_operands_safe [OF True] show ?thesis
    by (simp add: getLatency_def)
next
  case False
  then have "\<exists>r \<in> set (virtDefs tg (Operands NewRoot)). length (reg_begin mri r) < 2"
    by (auto simp: not_le)
  from getLatency_operands_unsafe [OF this] assms False show ?thesis
    by (simp add: getLatency_def)
qed

theorem getLatency_safe_iff_witness:
  "hasInstrSchedModelOrItineraries exTSM \<and>
   virtDefs exTG (Operands exN1) = [0x80000007] \<and> reg_begin exMRI 0x80000007 = [] \<and>
   getLatency exTSM exTG exMRI exADD exN1 exTrace = Inl EndIterator \<and>
   length (reg_begin exMRI 0x80000005) = 2 \<and>
   getLatency exTSM exTG exMRI exADD exMADD exTrace \<noteq> Inl EndIterator"
proof -
  have m: "hasInstrSchedModelOrItineraries exTSM" by (simp add: ex_defs)
  have v1: "virtDefs exTG (Operands exN1) = [0x80000007]" by (simp add: ex_defs)
  have v2: "virtDefs exTG (Operands exMADD) = [0x80000005]" by (simp add: ex_defs)
  have r1: "reg_begin exMRI 0x80000007 = []" by (simp add: ex_defs)
  have r2: "length (reg_begin exMRI 0x80000005) = 2" by (simp add: ex_defs)
  from getLatency_safe_iff [OF m, of exTG exN1 exMRI exADD exTrace]
  have a: "getLatency exTSM exTG exMRI exADD exN1 exTrace = Inl EndIterator"
    by (simp add: v1 r1)
  from getLatency_safe_iff [OF m, of exTG exMADD exMRI exADD exTrace]
  have b: "getLatency exTSM exTG exMRI exADD exMADD exTrace \<noteq> Inl EndIterator"
    by (auto simp: v2 r2)
  from m v1 r1 a r2 b show ?thesis by simp
qed

section \<open>Properties of the driver\<close>

subsection \<open>The edit of the block, and the end of the loop over the block\<close>

lemma insertBefore_at:
  "MI \<notin> set pre \<Longrightarrow> insertBefore MI X (pre @ MI # suf) = pre @ X # MI # suf"
  by (induction pre) auto

lemma foldl_insertBefore:
  "MI \<notin> set pre \<Longrightarrow> MI \<notin> set Ins \<Longrightarrow>
   foldl (\<lambda>b X. insertBefore MI X b) (pre @ MI # suf) Ins = pre @ Ins @ MI # suf"
proof (induction Ins arbitrary: pre)
  case Nil
  then show ?case by simp
next
  case (Cons X Xs)
  from Cons.prems have "MI \<notin> set (pre @ [X])" and "MI \<notin> set Xs" by auto
  from Cons.IH [OF this] Cons.prems show ?case
    by (simp add: insertBefore_at)
qed

lemma foldl_MBB_insert:
  "foldl (\<lambda>s X. MBB_insert MI X s) S Ins =
     S\<lparr>BeforeIter := foldl (\<lambda>b X. insertBefore MI X b) (BeforeIter S) Ins\<rparr>"
  by (induction Ins arbitrary: S) (simp_all add: MBB_insert_def)

lemma foldl_eraseFromParent:
  "foldl (\<lambda>s X. eraseFromParent X s) S Del =
     S\<lparr>BeforeIter := filter (\<lambda>I. I \<notin> set Del) (BeforeIter S),
       AfterIter := filter (\<lambda>I. I \<notin> set Del) (AfterIter S),
       Others := map (filter (\<lambda>I. I \<notin> set Del)) (Others S)\<rparr>"
proof (induction Del arbitrary: S)
  case Nil
  then show ?case by simp
next
  case (Cons D Ds)
  have f: "filter (\<lambda>I. I \<notin> set Ds) (removeAll D xs) = filter (\<lambda>I. I \<notin> set (D # Ds)) xs" for xs
    by (induction xs) auto
  have "foldl (\<lambda>s X. eraseFromParent X s) S (D # Ds) =
          foldl (\<lambda>s X. eraseFromParent X s) (eraseFromParent D S) Ds"
    by simp
  also have "\<dots> = (eraseFromParent D S)
      \<lparr>BeforeIter := filter (\<lambda>I. I \<notin> set Ds) (BeforeIter (eraseFromParent D S)),
        AfterIter := filter (\<lambda>I. I \<notin> set Ds) (AfterIter (eraseFromParent D S)),
        Others := map (filter (\<lambda>I. I \<notin> set Ds)) (Others (eraseFromParent D S))\<rparr>"
    by (rule Cons.IH)
  also have "\<dots> = S\<lparr>BeforeIter := filter (\<lambda>I. I \<notin> set (D # Ds)) (BeforeIter S),
       AfterIter := filter (\<lambda>I. I \<notin> set (D # Ds)) (AfterIter S),
       Others := map (filter (\<lambda>I. I \<notin> set (D # Ds))) (Others S)\<rparr>"
    unfolding eraseFromParent_def by (simp add: f del: set_simps)
  finally show ?case .
qed

lemma insertDeleteInstructions_fields:
  "AfterIter (insertDeleteInstructions MBB MI Ins Del S) = filter (\<lambda>I. I \<notin> set Del) (AfterIter S)"
  "Others (insertDeleteInstructions MBB MI Ins Del S) = map (filter (\<lambda>I. I \<notin> set Del)) (Others S)"
  "BeforeIter (insertDeleteInstructions MBB MI Ins Del S) =
     filter (\<lambda>I. I \<notin> set Del) (foldl (\<lambda>b X. insertBefore MI X b) (BeforeIter S) Ins)"
  "Log (insertDeleteInstructions MBB MI Ins Del S) = Log S @ [EvInvalidate MBB, EvVerifyAnalysis]"
  "NumInstCombined (insertDeleteInstructions MBB MI Ins Del S) = NumInstCombined S + 1"
  "Changed (insertDeleteInstructions MBB MI Ins Del S) = Changed S"
  "MinInstr (insertDeleteInstructions MBB MI Ins Del S) = MinInstr S"
  "InstrIdxForVirtReg (insertDeleteInstructions MBB MI Ins Del S) = InstrIdxForVirtReg S"
  by (simp_all add: insertDeleteInstructions_def Let_def foldl_eraseFromParent foldl_MBB_insert)

lemma foldl_delete_log:
  "foldl (\<lambda>s X. s\<lparr>Log := Log s @ [EvDeleteMachineInstr X]\<rparr>) S Ins =
     S\<lparr>Log := Log S @ map EvDeleteMachineInstr Ins\<rparr>"
  by (induction Ins arbitrary: S) simp_all

lemma view_upd [simp]:
  "view (S\<lparr>Log := l\<rparr>) = view S"
  "view (S\<lparr>MinInstr := m\<rparr>) = view S"
  "view (S\<lparr>InstrIdxForVirtReg := i\<rparr>) = view S"
  "view (S\<lparr>Changed := c\<rparr>) = view S"
  by (simp_all add: view_def)

lemma tryPattern_After_le:
  "tryPattern MC MBB InLoop MI P S = Inr (b, S') \<Longrightarrow> length (AfterIter S') \<le> length (AfterIter S)"
  by (auto simp: tryPattern_def Let_def insertDeleteInstructions_fields foldl_delete_log
           split: prod.splits if_splits sum.splits)

lemma tryPatterns_After_le:
  "tryPatterns MC MBB InLoop MI Ps S = Inr S' \<Longrightarrow> length (AfterIter S') \<le> length (AfterIter S)"
proof (induction Ps arbitrary: S)
  case Nil
  then show ?case by simp
next
  case (Cons P Ps)
  show ?case
  proof (cases "tryPattern MC MBB InLoop MI P S")
    case (Inl e)
    with Cons.prems show ?thesis by simp
  next
    case (Inr r)
    obtain b S1 where r: "r = (b, S1)" by (cases r)
    from Inr r have le: "length (AfterIter S1) \<le> length (AfterIter S)"
      using tryPattern_After_le by blast
    show ?thesis
    proof (cases b)
      case True
      with Cons.prems Inr r le show ?thesis by simp
    next
      case False
      with Cons.prems Inr r have "tryPatterns MC MBB InLoop MI Ps S1 = Inr S'" by simp
      from Cons.IH [OF this] le show ?thesis by simp
    qed
  qed
qed

lemma visit_After_le:
  "visit MC MBB InLoop MI S = Inr S' \<Longrightarrow> length (AfterIter S') \<le> length (AfterIter S)"
  by (auto simp: visit_def split: prod.splits if_splits dest: tryPatterns_After_le)

termination combineLoop
proof (relation "measure (\<lambda>(MC, MBB, InLoop, S). length (AfterIter S))")
  show "wf (measure (\<lambda>(MC, MBB, InLoop, S). length (AfterIter S)))" by simp
next
  fix MC MBB InLoop S MI rest S'
  assume a: "AfterIter S = MI # rest"
    and v: "visit MC MBB InLoop MI (S\<lparr>BeforeIter := BeforeIter S @ [MI], AfterIter := rest\<rparr>) = Inr S'"
  from visit_After_le [OF v] a
  show "((MC, MBB, InLoop, S'), (MC, MBB, InLoop, S)) \<in> measure (\<lambda>(MC, MBB, InLoop, S). length (AfterIter S))"
    by simp
qed

subsection \<open>One pattern of one anchor\<close>

lemma view_afterSynthesis [simp]: "view (afterSynthesis MI P Idx S) = view S"
  by (simp add: afterSynthesis_def view_def Let_def)

lemma tryPattern_eq:
  assumes "genAlternativeCodeSequence MC (view S) MI P = (Ins, Del, Idx)"
  shows "tryPattern MC MBB InLoop MI P S =
    (if Ins = [] then Inr (False, afterSynthesis MI P Idx S)
     else if (InLoop \<and> isThroughputPattern MC P) \<or> doSubstitute MC (length Ins) (length Del) then
        Inr (True, (insertDeleteInstructions MBB MI Ins Del (afterSynthesis MI P Idx S))\<lparr>Changed := True\<rparr>)
     else
       (case improvesCriticalPathLen (TSchedModel MC) (TargetInfo MC) (RegInfo MC (view S)) MBB MI
               (getTrace MC (view S) MBB) Ins Del Idx P of
          Inl e \<Rightarrow> Inl e
        | Inr b \<Rightarrow>
            if b \<and> preservesResourceLen (TSchedModel MC) (TargetInfo MC) MBB
                     (getTrace MC (view S) MBB) Ins Del
            then Inr (True,
                   (insertDeleteInstructions MBB MI Ins Del
                      ((afterSynthesis MI P Idx S)
                         \<lparr>Log := Log (afterSynthesis MI P Idx S)
                            @ [EvGetTrace MBB, EvImprovesCriticalPathLen, EvPreservesResourceLen]\<rparr>))
                   \<lparr>Changed := True\<rparr>)
            else Inr (False,
                   (afterSynthesis MI P Idx S)
                     \<lparr>InstrIdxForVirtReg := Map.empty,
                       Log := Log (afterSynthesis MI P Idx S)
                          @ [EvGetTrace MBB, EvImprovesCriticalPathLen]
                          @ (if b then [EvPreservesResourceLen] else [])
                          @ map EvDeleteMachineInstr Ins\<rparr>)))"
  using assms
  by (simp add: tryPattern_def Let_def afterSynthesis_def foldl_delete_log split: sum.splits)


lemma afterSynthesis_fields [simp]:
  "BeforeIter (afterSynthesis MI P Idx S) = BeforeIter S"
  "AfterIter (afterSynthesis MI P Idx S) = AfterIter S"
  "Others (afterSynthesis MI P Idx S) = Others S"
  "Changed (afterSynthesis MI P Idx S) = Changed S"
  "NumInstCombined (afterSynthesis MI P Idx S) = NumInstCombined S"
  "MinInstr (afterSynthesis MI P Idx S) = True"
  "InstrIdxForVirtReg (afterSynthesis MI P Idx S) = Idx"
  "Log (afterSynthesis MI P Idx S) =
     Log S @ (if MinInstr S then [] else [EvGetEnsemble])
       @ [EvVerifyAnalysis, EvGenAlternativeCodeSequence MI P]"
  by (simp_all add: afterSynthesis_def Let_def)

lemma afterSynthesis_rejected:
  "(afterSynthesis MI P Idx S)\<lparr>InstrIdxForVirtReg := Map.empty,
       Log := Log (afterSynthesis MI P Idx S) @ L\<rparr> =
   S\<lparr>MinInstr := True, InstrIdxForVirtReg := Map.empty,
     Log := Log S @ (if MinInstr S then [] else [EvGetEnsemble])
              @ [EvVerifyAnalysis, EvGenAlternativeCodeSequence MI P] @ L\<rparr>"
  by (cases S) (simp add: afterSynthesis_def)

lemma filter_costModelEvent_delete [simp]:
  "filter costModelEvent (map EvDeleteMachineInstr Ins) = map EvDeleteMachineInstr Ins"
  by (induction Ins) simp_all

lemma tryPatterns_no_model:
  assumes nm: "\<not> hasInstrSchedModelOrItineraries (TSchedModel MC)"
  shows "\<exists>S'. tryPatterns MC MBB InLoop MI Ps S = Inr S' \<and>
              filter costModelEvent (Log S') = filter costModelEvent (Log S)"
proof (induction Ps arbitrary: S)
  case Nil
  then show ?case by simp
next
  case (Cons P Ps)
  obtain Ins Del Idx where gen: "genAlternativeCodeSequence MC (view S) MI P = (Ins, Del, Idx)"
    by (cases "genAlternativeCodeSequence MC (view S) MI P") auto
  show ?case
  proof (cases "Ins = []")
    case True
    with nm have t: "tryPattern MC MBB InLoop MI P S = Inr (False, afterSynthesis MI P Idx S)"
      by (simp add: tryPattern_eq [OF gen])
    from Cons.IH [of "afterSynthesis MI P Idx S"] obtain S'
      where "tryPatterns MC MBB InLoop MI Ps (afterSynthesis MI P Idx S) = Inr S'"
        and "filter costModelEvent (Log S') = filter costModelEvent (Log (afterSynthesis MI P Idx S))"
      by blast
    with t show ?thesis by simp
  next
    case False
    with nm show ?thesis
      by (simp add: tryPattern_eq [OF gen] doSubstitute_def insertDeleteInstructions_fields)
  qed
qed

lemma tryPattern_outcome:
  assumes t: "tryPattern MC MBB InLoop MI P S = Inr (brk, S')"
  shows "(\<not> brk \<and> BeforeIter S' = BeforeIter S \<and> AfterIter S' = AfterIter S \<and> Others S' = Others S \<and>
          Changed S' = Changed S \<and> NumInstCombined S' = NumInstCombined S \<and>
          (\<exists>L. Log S' = Log S @ L))
       \<or> (brk \<and> (\<exists>Ins Del Idx L.
            genAlternativeCodeSequence MC (view S) MI P = (Ins, Del, Idx) \<and> Ins \<noteq> [] \<and>
            BeforeIter S' =
              filter (\<lambda>I. I \<notin> set Del) (foldl (\<lambda>b X. insertBefore MI X b) (BeforeIter S) Ins) \<and>
            AfterIter S' = filter (\<lambda>I. I \<notin> set Del) (AfterIter S) \<and>
            Others S' = map (filter (\<lambda>I. I \<notin> set Del)) (Others S) \<and>
            Changed S' \<and> NumInstCombined S' = NumInstCombined S + 1 \<and>
            Log S' = Log S @ L @ [EvInvalidate MBB, EvVerifyAnalysis]))"
proof -
  obtain Ins Del Idx where gen: "genAlternativeCodeSequence MC (view S) MI P = (Ins, Del, Idx)"
    by (cases "genAlternativeCodeSequence MC (view S) MI P") auto
  note eq = tryPattern_eq [OF gen, of MBB InLoop]
  show ?thesis
  proof (cases "Ins = []")
    case True
    with t eq have brk: "\<not> brk" and S': "S' = afterSynthesis MI P Idx S"
      by auto
    have l: "Log S' = Log S @ ((if MinInstr S then [] else [EvGetEnsemble])
                @ [EvVerifyAnalysis, EvGenAlternativeCodeSequence MI P])"
      by (simp add: S')
    have f: "BeforeIter S' = BeforeIter S" "AfterIter S' = AfterIter S" "Others S' = Others S"
        "Changed S' = Changed S" "NumInstCombined S' = NumInstCombined S"
      by (simp_all add: S')
    from brk f l show ?thesis by blast
  next
    case ne: False
    show ?thesis
    proof (cases "(InLoop \<and> isThroughputPattern MC P) \<or> doSubstitute MC (length Ins) (length Del)")
      case True
      with t eq ne have brk: brk
        and S': "S' = (insertDeleteInstructions MBB MI Ins Del (afterSynthesis MI P Idx S))\<lparr>Changed := True\<rparr>"
        by auto
      have l: "Log S' = Log S @ ((if MinInstr S then [] else [EvGetEnsemble])
                @ [EvVerifyAnalysis, EvGenAlternativeCodeSequence MI P])
                @ [EvInvalidate MBB, EvVerifyAnalysis]"
        by (simp add: S' insertDeleteInstructions_fields)
      have f: "BeforeIter S' =
              filter (\<lambda>I. I \<notin> set Del) (foldl (\<lambda>b X. insertBefore MI X b) (BeforeIter S) Ins)"
          "AfterIter S' = filter (\<lambda>I. I \<notin> set Del) (AfterIter S)"
          "Others S' = map (filter (\<lambda>I. I \<notin> set Del)) (Others S)"
          "Changed S'" "NumInstCombined S' = NumInstCombined S + 1"
        by (simp_all add: S' insertDeleteInstructions_fields)
      from brk gen ne f l show ?thesis by blast
    next
      case False
      show ?thesis
      proof (cases "improvesCriticalPathLen (TSchedModel MC) (TargetInfo MC) (RegInfo MC (view S)) MBB MI
               (getTrace MC (view S) MBB) Ins Del Idx P")
        case (Inl e)
        with t eq ne False show ?thesis by simp
      next
        case (Inr b)
        show ?thesis
        proof (cases "b \<and> preservesResourceLen (TSchedModel MC) (TargetInfo MC) MBB
                     (getTrace MC (view S) MBB) Ins Del")
          case True
          with t eq ne False Inr have brk: brk
            and S': "S' = (insertDeleteInstructions MBB MI Ins Del
                      ((afterSynthesis MI P Idx S)
                         \<lparr>Log := Log (afterSynthesis MI P Idx S)
                            @ [EvGetTrace MBB, EvImprovesCriticalPathLen, EvPreservesResourceLen]\<rparr>))
                   \<lparr>Changed := True\<rparr>"
            by auto
          have l: "Log S' = Log S @ ((if MinInstr S then [] else [EvGetEnsemble])
                @ [EvVerifyAnalysis, EvGenAlternativeCodeSequence MI P]
                @ [EvGetTrace MBB, EvImprovesCriticalPathLen, EvPreservesResourceLen])
                @ [EvInvalidate MBB, EvVerifyAnalysis]"
            by (simp add: S' insertDeleteInstructions_fields)
          have f: "BeforeIter S' =
              filter (\<lambda>I. I \<notin> set Del) (foldl (\<lambda>b X. insertBefore MI X b) (BeforeIter S) Ins)"
              "AfterIter S' = filter (\<lambda>I. I \<notin> set Del) (AfterIter S)"
              "Others S' = map (filter (\<lambda>I. I \<notin> set Del)) (Others S)"
              "Changed S'" "NumInstCombined S' = NumInstCombined S + 1"
            by (simp_all add: S' insertDeleteInstructions_fields)
          from brk gen ne f l show ?thesis by blast
        next
          case rej: False
          with t eq ne False Inr have brk: "\<not> brk"
            and S': "S' = (afterSynthesis MI P Idx S)
                     \<lparr>InstrIdxForVirtReg := Map.empty,
                       Log := Log (afterSynthesis MI P Idx S)
                          @ [EvGetTrace MBB, EvImprovesCriticalPathLen]
                          @ (if b then [EvPreservesResourceLen] else [])
                          @ map EvDeleteMachineInstr Ins\<rparr>"
            by auto
          have l: "Log S' = Log S @ ((if MinInstr S then [] else [EvGetEnsemble])
                @ [EvVerifyAnalysis, EvGenAlternativeCodeSequence MI P]
                @ [EvGetTrace MBB, EvImprovesCriticalPathLen]
                @ (if b then [EvPreservesResourceLen] else [])
                @ map EvDeleteMachineInstr Ins)"
            by (simp add: S')
          have f: "BeforeIter S' = BeforeIter S" "AfterIter S' = AfterIter S" "Others S' = Others S"
              "Changed S' = Changed S" "NumInstCombined S' = NumInstCombined S"
            by (simp_all add: S')
          from brk f l show ?thesis by blast
        qed
      qed
    qed
  qed
qed

lemma tryPatterns_outcome:
  assumes "tryPatterns MC MBB InLoop MI Ps S = Inr S'"
  shows "(BeforeIter S' = BeforeIter S \<and> AfterIter S' = AfterIter S \<and> Others S' = Others S \<and>
          Changed S' = Changed S \<and> NumInstCombined S' = NumInstCombined S \<and>
          (\<exists>L. Log S' = Log S @ L))
       \<or> (\<exists>P Ins Del Idx L. P \<in> set Ps \<and>
            genAlternativeCodeSequence MC (view S) MI P = (Ins, Del, Idx) \<and> Ins \<noteq> [] \<and>
            BeforeIter S' =
              filter (\<lambda>I. I \<notin> set Del) (foldl (\<lambda>b X. insertBefore MI X b) (BeforeIter S) Ins) \<and>
            AfterIter S' = filter (\<lambda>I. I \<notin> set Del) (AfterIter S) \<and>
            Others S' = map (filter (\<lambda>I. I \<notin> set Del)) (Others S) \<and>
            Changed S' \<and> NumInstCombined S' = NumInstCombined S + 1 \<and>
            Log S' = Log S @ L @ [EvInvalidate MBB, EvVerifyAnalysis])"
  using assms
proof (induction Ps arbitrary: S)
  case Nil
  then show ?case by simp
next
  case (Cons P Ps)
  show ?case
  proof (cases "tryPattern MC MBB InLoop MI P S")
    case (Inl e)
    with Cons.prems show ?thesis by simp
  next
    case (Inr r)
    obtain brk S1 where r: "r = (brk, S1)" by (cases r)
    note out = tryPattern_outcome [OF Inr [unfolded r]]
    show ?thesis
    proof (cases brk)
      case True
      with Cons.prems Inr r have "S' = S1" by simp
      with out True show ?thesis
        by (intro disjI2) (simp, blast)
    next
      case False
      with out have same: "BeforeIter S1 = BeforeIter S" "AfterIter S1 = AfterIter S"
          "Others S1 = Others S" "Changed S1 = Changed S" "NumInstCombined S1 = NumInstCombined S"
        and "\<exists>L. Log S1 = Log S @ L"
        by auto
      then obtain L1 where L1: "Log S1 = Log S @ L1" by blast
      from same have v: "view S1 = view S" by (simp add: view_def)
      from False Cons.prems Inr r have "tryPatterns MC MBB InLoop MI Ps S1 = Inr S'" by simp
      from Cons.IH [OF this]
      show ?thesis
      proof (elim disjE exE conjE)
        fix L
        assume "BeforeIter S' = BeforeIter S1" "AfterIter S' = AfterIter S1" "Others S' = Others S1"
          "Changed S' = Changed S1" "NumInstCombined S' = NumInstCombined S1" "Log S' = Log S1 @ L"
        with same L1 have "BeforeIter S' = BeforeIter S" "AfterIter S' = AfterIter S"
          "Others S' = Others S" "Changed S' = Changed S" "NumInstCombined S' = NumInstCombined S"
          "Log S' = Log S @ (L1 @ L)"
          by simp_all
        then show ?thesis by blast
      next
        fix Q Ins Del Idx L
        assume "Q \<in> set Ps" "genAlternativeCodeSequence MC (view S1) MI Q = (Ins, Del, Idx)" "Ins \<noteq> []"
          "BeforeIter S' =
              filter (\<lambda>I. I \<notin> set Del) (foldl (\<lambda>b X. insertBefore MI X b) (BeforeIter S1) Ins)"
          "AfterIter S' = filter (\<lambda>I. I \<notin> set Del) (AfterIter S1)"
          "Others S' = map (filter (\<lambda>I. I \<notin> set Del)) (Others S1)"
          "Changed S'" "NumInstCombined S' = NumInstCombined S1 + 1"
          "Log S' = Log S1 @ L @ [EvInvalidate MBB, EvVerifyAnalysis]"
        with same L1 v have "Q \<in> set (P # Ps)"
          "genAlternativeCodeSequence MC (view S) MI Q = (Ins, Del, Idx)" "Ins \<noteq> []"
          "BeforeIter S' =
              filter (\<lambda>I. I \<notin> set Del) (foldl (\<lambda>b X. insertBefore MI X b) (BeforeIter S) Ins)"
          "AfterIter S' = filter (\<lambda>I. I \<notin> set Del) (AfterIter S)"
          "Others S' = map (filter (\<lambda>I. I \<notin> set Del)) (Others S)"
          "Changed S'" "NumInstCombined S' = NumInstCombined S + 1"
          "Log S' = Log S @ (L1 @ L) @ [EvInvalidate MBB, EvVerifyAnalysis]"
          by simp_all
        then show ?thesis by blast
      qed
    qed
  qed
qed

lemma visit_no_model:
  assumes nm: "\<not> hasInstrSchedModelOrItineraries (TSchedModel MC)"
  shows "\<exists>S'. visit MC MBB InLoop MI S = Inr S' \<and>
              filter costModelEvent (Log S') = filter costModelEvent (Log S)"
  using tryPatterns_no_model [OF nm]
  by (cases "getMachineCombinerPatterns MC (view S) MI") (simp add: visit_def)

lemma combineLoop_no_model_total:
  "\<not> hasInstrSchedModelOrItineraries (TSchedModel MC) \<Longrightarrow>
   (case combineLoop MC MBB InLoop S of
      Inl e \<Rightarrow> e = DanglingIterator
    | Inr S' \<Rightarrow> filter costModelEvent (Log S') = filter costModelEvent (Log S))"
proof (induction MC MBB InLoop S rule: combineLoop.induct)
  case (1 MC MBB InLoop S)
  note nm = "1.prems"
  show ?case
  proof (cases "AfterIter S")
    case Nil
    then show ?thesis by (subst combineLoop.simps) simp
  next
    case (Cons MI rest)
    let ?S1 = "S\<lparr>BeforeIter := BeforeIter S @ [MI], AfterIter := rest\<rparr>"
    from visit_no_model [OF nm, of MBB InLoop MI ?S1] obtain S1
      where v: "visit MC MBB InLoop MI ?S1 = Inr S1"
        and l: "filter costModelEvent (Log S1) = filter costModelEvent (Log S)"
      by auto
    have eq: "combineLoop MC MBB InLoop S =
        (if rest \<noteq> [] \<and> hd rest \<notin> set (AfterIter S1) then Inl DanglingIterator
         else combineLoop MC MBB InLoop S1)"
      using Cons v by (subst combineLoop.simps) simp
    show ?thesis
    proof (cases "rest \<noteq> [] \<and> hd rest \<notin> set (AfterIter S1)")
      case True
      with eq have "combineLoop MC MBB InLoop S = Inl DanglingIterator"
        by (auto simp del: combineLoop.simps)
      then show ?thesis by simp
    next
      case False
      with eq have "combineLoop MC MBB InLoop S = combineLoop MC MBB InLoop S1"
        by (auto simp del: combineLoop.simps)
      with "1.IH" [OF Cons v False nm] l show ?thesis
        by (simp del: combineLoop.simps split: sum.splits)
    qed
  qed
qed

text \<open>
  The failure of the iterator in \<open>getLatency\<close> reaches the driver: the candidate is
  judged with the register information of the function as it is, the candidate not
  inserted.
\<close>

lemma tryPattern_EndIterator:
  assumes gen: "genAlternativeCodeSequence MC (view S) MI P = (Ins, Del, Idx)"
    and ne: "Ins \<noteq> []"
    and nt: "\<not> (InLoop \<and> isThroughputPattern MC P)"
    and nd: "\<not> doSubstitute MC (length Ins) (length Del)"
    and obj: "getCombinerObjective P = Default"
    and depth: "getDepth (TSchedModel MC) (TargetInfo MC) (RegInfo MC (view S)) Ins Idx
                  (getTrace MC (view S) MBB) = Inr d"
    and short: "\<exists>r \<in> set (virtDefs (TargetInfo MC) (Operands (last Ins))).
                  length (reg_begin (RegInfo MC (view S)) r) < 2"
  shows "tryPattern MC MBB InLoop MI P S = Inl EndIterator"
proof -
  from depth have m: "hasInstrSchedModelOrItineraries (TSchedModel MC)"
    using getDepth_Inr_nonempty by blast
  from ne have l: "Ins ! (length Ins - Suc 0) = last Ins"
    by (simp add: last_conv_nth)
  from getLatency_operands_unsafe [OF short] m
  have "getLatency (TSchedModel MC) (TargetInfo MC) (RegInfo MC (view S)) MI (last Ins)
          (getTrace MC (view S) MBB) = Inl EndIterator"
    by (simp add: getLatency_def)
  with m ne obj depth l
  have "improvesCriticalPathLen (TSchedModel MC) (TargetInfo MC) (RegInfo MC (view S)) MBB MI
          (getTrace MC (view S) MBB) Ins Del Idx P = Inl EndIterator"
    by (simp add: improvesCriticalPathLen_def Let_def)
  with ne nt nd show ?thesis
    by (simp add: tryPattern_eq [OF gen])
qed

subsection \<open>Facts of the worked example\<close>

lemma ex_distinct:
  "exMUL \<noteq> exADD" "exMUL \<noteq> exMADD" "exMUL \<noteq> exUSE" "exMUL \<noteq> exN1" "exMUL \<noteq> exN2"
  "exADD \<noteq> exMADD" "exADD \<noteq> exUSE" "exADD \<noteq> exN1" "exADD \<noteq> exN2"
  "exMADD \<noteq> exUSE" "exMADD \<noteq> exN1" "exMADD \<noteq> exN2"
  "exUSE \<noteq> exN1" "exUSE \<noteq> exN2" "exN1 \<noteq> exN2"
  by (simp_all add: ex_defs)

lemmas ex_distinct' = ex_distinct ex_distinct [symmetric]

lemma ex_improves_2:
  "improvesCriticalPathLen exTSM exTG exMRI 0 exADD exTrace [exN1, exN2] [exADD] exIdx
     (OTHER_PATTERN 2) = Inr True"
  by (simp add: improvesCriticalPathLen_def getDepth_def getLatency_def getOperandDef_def
        exIdx_def ex_defs)

lemma ex_improves_0:
  "improvesCriticalPathLen exTSM exTG exMRI 0 exADD exTrace [exMADD] [exMUL, exADD] Map.empty
     (OTHER_PATTERN 0) = Inr True"
  by (simp add: improvesCriticalPathLen_def getDepth_def getLatency_def getOperandDef_def ex_defs)

lemma ex_preserves_2: "\<not> preservesResourceLen exTSM exTG 0 exTrace [exN1, exN2] [exADD]"
  by (simp add: preservesResourceLen_def ex_defs)

lemma ex_preserves_0: "preservesResourceLen exTSM exTG 0 exTrace [exMADD] [exMUL, exADD]"
  by (simp add: preservesResourceLen_def ex_defs)

subsection \<open>No scheduling model\<close>

text \<open>
  C3. If the scheduling model has neither an instruction-level model nor itineraries, a
  pattern whose candidate has a new instruction is accepted: the body of the loop over the
  patterns leaves the loop with the candidate spliced in and the changed flag set, and
  records no event of the cost model. In that configuration the loop over the patterns
  of any anchor returns without an event of the cost model, and the loop over the block
  returns without one or fails on a dangling iterator: no candidate is rejected by the
  cost model.
\<close>

theorem no_model_accepts:
  assumes nm: "\<not> hasInstrSchedModelOrItineraries (TSchedModel MC)"
    and gen: "genAlternativeCodeSequence MC (view S) MI P = (Ins, Del, Idx)"
    and ne: "Ins \<noteq> []"
  shows "tryPattern MC MBB InLoop MI P S =
           Inr (True, (insertDeleteInstructions MBB MI Ins Del (afterSynthesis MI P Idx S))
                        \<lparr>Changed := True\<rparr>)
         \<and> tryPatterns MC MBB InLoop MI (P # Ps) S =
           Inr ((insertDeleteInstructions MBB MI Ins Del (afterSynthesis MI P Idx S))
                  \<lparr>Changed := True\<rparr>)
         \<and> filter costModelEvent
             (Log ((insertDeleteInstructions MBB MI Ins Del (afterSynthesis MI P Idx S))
                     \<lparr>Changed := True\<rparr>)) =
           filter costModelEvent (Log S)
         \<and> (\<forall>MI' Ps' S0. \<exists>S1. tryPatterns MC MBB InLoop MI' Ps' S0 = Inr S1 \<and>
               filter costModelEvent (Log S1) = filter costModelEvent (Log S0))
         \<and> (\<forall>S0. case combineLoop MC MBB InLoop S0 of
                    Inl e \<Rightarrow> e = DanglingIterator
                  | Inr S1 \<Rightarrow> filter costModelEvent (Log S1) = filter costModelEvent (Log S0))"
proof -
  have one: "tryPattern MC MBB InLoop MI P S =
           Inr (True, (insertDeleteInstructions MBB MI Ins Del (afterSynthesis MI P Idx S))
                        \<lparr>Changed := True\<rparr>)"
    using nm ne by (simp add: tryPattern_eq [OF gen] doSubstitute_def)
  have log: "filter costModelEvent
             (Log ((insertDeleteInstructions MBB MI Ins Del (afterSynthesis MI P Idx S))
                     \<lparr>Changed := True\<rparr>)) =
           filter costModelEvent (Log S)"
    by (simp add: insertDeleteInstructions_fields)
  from one log tryPatterns_no_model [OF nm] combineLoop_no_model_total [OF nm] show ?thesis
    by (simp del: combineLoop.simps)
qed

theorem no_model_accepts_witness:
  "tryPattern exMCnomodel 0 False exADD (OTHER_PATTERN 2) exState =
     Inr (True,
       \<lparr>BeforeIter = [exMUL, exN1, exN2], AfterIter = [exUSE], Others = [],
        MinInstr = True, NumInstCombined = 1, InstrIdxForVirtReg = exIdx, Changed = True,
        Log = [EvGetEnsemble, EvVerifyAnalysis,
               EvGenAlternativeCodeSequence exADD (OTHER_PATTERN 2),
               EvInvalidate 0, EvVerifyAnalysis]\<rparr>)"
proof -
  have nm: "\<not> hasInstrSchedModelOrItineraries (TSchedModel exMCnomodel)"
    by (simp add: exMCnomodel_def exNoModel_def)
  have gen: "genAlternativeCodeSequence exMCnomodel (view exState) exADD (OTHER_PATTERN 2) =
               ([exN1, exN2], [exADD], exIdx)"
    by (simp add: exMCnomodel_def exMC_def exGen_def)
  have ne: "[exN1, exN2] \<noteq> []" by simp
  have st: "(insertDeleteInstructions 0 exADD [exN1, exN2] [exADD]
               (afterSynthesis exADD (OTHER_PATTERN 2) exIdx exState))\<lparr>Changed := True\<rparr> =
       \<lparr>BeforeIter = [exMUL, exN1, exN2], AfterIter = [exUSE], Others = [],
        MinInstr = True, NumInstCombined = 1, InstrIdxForVirtReg = exIdx, Changed = True,
        Log = [EvGetEnsemble, EvVerifyAnalysis,
               EvGenAlternativeCodeSequence exADD (OTHER_PATTERN 2),
               EvInvalidate 0, EvVerifyAnalysis]\<rparr>"
    by (simp add: insertDeleteInstructions_def afterSynthesis_def MBB_insert_def
          eraseFromParent_def exState_def Let_def ex_distinct')
  from no_model_accepts [OF nm gen ne, where MBB = 0 and InLoop = False] st
  show ?thesis by simp
qed

subsection \<open>Optimizing for size\<close>

text \<open>
  C4, amended. When optimizing for size, a candidate with at least one new instruction and
  strictly fewer new instructions than deleted ones is accepted at once: the loop over the
  patterns is left with the candidate spliced in and the changed flag set, the events
  recorded are those of the synthesis and of the splice only (no block trace, no critical
  path check, no resource length check), and the outcome is the same whatever the
  scheduling model, the target queries, the register information and the traces are.
\<close>

theorem size_accepts:
  assumes sz: "OptSize MC"
    and gen: "genAlternativeCodeSequence MC (view S) MI P = (Ins, Del, Idx)"
    and ne: "Ins \<noteq> []"
    and less: "length Ins < length Del"
  shows "tryPattern MC MBB InLoop MI P S =
           Inr (True, (insertDeleteInstructions MBB MI Ins Del (afterSynthesis MI P Idx S))
                        \<lparr>Changed := True\<rparr>)
         \<and> Log ((insertDeleteInstructions MBB MI Ins Del (afterSynthesis MI P Idx S))
                  \<lparr>Changed := True\<rparr>) =
           Log S @ (if MinInstr S then [] else [EvGetEnsemble])
             @ [EvVerifyAnalysis, EvGenAlternativeCodeSequence MI P,
                EvInvalidate MBB, EvVerifyAnalysis]
         \<and> tryPattern (MC\<lparr>TSchedModel := tsm, TargetInfo := tg, RegInfo := ri, getTrace := gt\<rparr>)
             MBB InLoop MI P S =
           tryPattern MC MBB InLoop MI P S"
proof -
  let ?MC' = "MC\<lparr>TSchedModel := tsm, TargetInfo := tg, RegInfo := ri, getTrace := gt\<rparr>"
  from gen have gen': "genAlternativeCodeSequence ?MC' (view S) MI P = (Ins, Del, Idx)"
    by simp
  from sz less have d: "doSubstitute MC (length Ins) (length Del)"
    and d': "doSubstitute ?MC' (length Ins) (length Del)"
    by (simp_all add: doSubstitute_def)
  from d ne have a: "tryPattern MC MBB InLoop MI P S =
           Inr (True, (insertDeleteInstructions MBB MI Ins Del (afterSynthesis MI P Idx S))
                        \<lparr>Changed := True\<rparr>)"
    by (simp add: tryPattern_eq [OF gen])
  from d' ne have b: "tryPattern ?MC' MBB InLoop MI P S =
           Inr (True, (insertDeleteInstructions MBB MI Ins Del (afterSynthesis MI P Idx S))
                        \<lparr>Changed := True\<rparr>)"
    by (simp add: tryPattern_eq [OF gen'])
  from a b show ?thesis
    by (simp add: insertDeleteInstructions_fields)
qed

theorem size_accepts_witness:
  "tryPattern exMCsize 0 False exADD (OTHER_PATTERN 0) exState =
     Inr (True,
       \<lparr>BeforeIter = [exMADD], AfterIter = [exUSE], Others = [],
        MinInstr = True, NumInstCombined = 1, InstrIdxForVirtReg = Map.empty, Changed = True,
        Log = [EvGetEnsemble, EvVerifyAnalysis,
               EvGenAlternativeCodeSequence exADD (OTHER_PATTERN 0),
               EvInvalidate 0, EvVerifyAnalysis]\<rparr>)"
proof -
  have sz: "OptSize exMCsize" by (simp add: exMCsize_def)
  have gen: "genAlternativeCodeSequence exMCsize (view exState) exADD (OTHER_PATTERN 0) =
               ([exMADD], [exMUL, exADD], Map.empty)"
    by (simp add: exMCsize_def exMC_def exGen_def)
  have ne: "[exMADD] \<noteq> []" by simp
  have less: "length [exMADD] < length [exMUL, exADD]" by simp
  have st: "(insertDeleteInstructions 0 exADD [exMADD] [exMUL, exADD]
               (afterSynthesis exADD (OTHER_PATTERN 0) Map.empty exState))\<lparr>Changed := True\<rparr> =
       \<lparr>BeforeIter = [exMADD], AfterIter = [exUSE], Others = [],
        MinInstr = True, NumInstCombined = 1, InstrIdxForVirtReg = Map.empty, Changed = True,
        Log = [EvGetEnsemble, EvVerifyAnalysis,
               EvGenAlternativeCodeSequence exADD (OTHER_PATTERN 0),
               EvInvalidate 0, EvVerifyAnalysis]\<rparr>"
    by (simp add: insertDeleteInstructions_def afterSynthesis_def MBB_insert_def
          eraseFromParent_def exState_def Let_def ex_distinct')
  from size_accepts [OF sz gen ne less, where MBB = 0 and InLoop = False] st
  show ?thesis by simp
qed

text \<open>
  Without the condition on the new instructions the statement fails: a candidate with no
  new instruction and two deleted ones has strictly fewer new instructions than deleted
  ones, and when optimizing for size it is skipped, not accepted, the block unchanged.
\<close>

theorem size_empty_candidate_counterexample:
  "OptSize exMCsize \<and>
   genAlternativeCodeSequence exMCsize (view exState) exADD (OTHER_PATTERN 3) =
     ([], [exMUL, exADD], Map.empty) \<and>
   length ([] :: MachineInstr list) < length [exMUL, exADD] \<and>
   tryPattern exMCsize 0 False exADD (OTHER_PATTERN 3) exState =
     Inr (False,
       \<lparr>BeforeIter = [exMUL, exADD], AfterIter = [exUSE], Others = [],
        MinInstr = True, NumInstCombined = 0, InstrIdxForVirtReg = Map.empty, Changed = False,
        Log = [EvGetEnsemble, EvVerifyAnalysis,
               EvGenAlternativeCodeSequence exADD (OTHER_PATTERN 3)]\<rparr>)"
proof -
  have gen: "genAlternativeCodeSequence exMCsize (view exState) exADD (OTHER_PATTERN 3) =
     ([], [exMUL, exADD], Map.empty)"
    by (simp add: exMCsize_def exMC_def exGen_def)
  have "tryPattern exMCsize 0 False exADD (OTHER_PATTERN 3) exState =
     Inr (False, afterSynthesis exADD (OTHER_PATTERN 3) Map.empty exState)"
    by (simp add: tryPattern_eq [OF gen])
  with gen show ?thesis
    by (simp add: afterSynthesis_def exState_def exMCsize_def)
qed

subsection \<open>A rejected candidate\<close>

text \<open>
  C9. When the cost model rejects a candidate (it has a new instruction, is not substituted
  without the cost model, and the critical path check or the resource length check says
  no), the blocks of the function, the changed flag and the count of combined instructions
  are as before: no new instruction was inserted. Every new instruction of the candidate
  is released, in order, the map of the candidate is cleared, and the loop goes on with
  the next pattern from that state.
\<close>

theorem rejected_candidate:
  assumes gen: "genAlternativeCodeSequence MC (view S) MI P = (Ins, Del, Idx)"
    and ne: "Ins \<noteq> []"
    and nt: "\<not> (InLoop \<and> isThroughputPattern MC P)"
    and nd: "\<not> doSubstitute MC (length Ins) (length Del)"
    and imp: "improvesCriticalPathLen (TSchedModel MC) (TargetInfo MC) (RegInfo MC (view S)) MBB MI
                (getTrace MC (view S) MBB) Ins Del Idx P = Inr b"
    and rej: "\<not> (b \<and> preservesResourceLen (TSchedModel MC) (TargetInfo MC) MBB
                         (getTrace MC (view S) MBB) Ins Del)"
  shows "tryPattern MC MBB InLoop MI P S =
           Inr (False,
             S\<lparr>MinInstr := True, InstrIdxForVirtReg := Map.empty,
               Log := Log S @ (if MinInstr S then [] else [EvGetEnsemble])
                 @ [EvVerifyAnalysis, EvGenAlternativeCodeSequence MI P]
                 @ [EvGetTrace MBB, EvImprovesCriticalPathLen]
                 @ (if b then [EvPreservesResourceLen] else [])
                 @ map EvDeleteMachineInstr Ins\<rparr>)
         \<and> tryPatterns MC MBB InLoop MI (P # Ps) S =
           tryPatterns MC MBB InLoop MI Ps
             (S\<lparr>MinInstr := True, InstrIdxForVirtReg := Map.empty,
               Log := Log S @ (if MinInstr S then [] else [EvGetEnsemble])
                 @ [EvVerifyAnalysis, EvGenAlternativeCodeSequence MI P]
                 @ [EvGetTrace MBB, EvImprovesCriticalPathLen]
                 @ (if b then [EvPreservesResourceLen] else [])
                 @ map EvDeleteMachineInstr Ins\<rparr>)"
proof -
  have "tryPattern MC MBB InLoop MI P S =
          Inr (False,
            (afterSynthesis MI P Idx S)
              \<lparr>InstrIdxForVirtReg := Map.empty,
                Log := Log (afterSynthesis MI P Idx S)
                  @ ([EvGetTrace MBB, EvImprovesCriticalPathLen]
                     @ (if b then [EvPreservesResourceLen] else [])
                     @ map EvDeleteMachineInstr Ins)\<rparr>)"
    using ne nt nd imp rej by (simp add: tryPattern_eq [OF gen] del: afterSynthesis_fields)
  then have "tryPattern MC MBB InLoop MI P S =
           Inr (False,
             S\<lparr>MinInstr := True, InstrIdxForVirtReg := Map.empty,
               Log := Log S @ (if MinInstr S then [] else [EvGetEnsemble])
                 @ [EvVerifyAnalysis, EvGenAlternativeCodeSequence MI P]
                 @ [EvGetTrace MBB, EvImprovesCriticalPathLen]
                 @ (if b then [EvPreservesResourceLen] else [])
                 @ map EvDeleteMachineInstr Ins\<rparr>)"
    unfolding afterSynthesis_rejected by simp
  then show ?thesis by simp
qed

theorem rejected_candidate_witness:
  "tryPattern exMC 0 False exADD (OTHER_PATTERN 2) exState = Inr (False, exRejected) \<and>
   tryPatterns exMC 0 False exADD [OTHER_PATTERN 2] exState = Inr exRejected"
proof -
  have gen: "genAlternativeCodeSequence exMC (view exState) exADD (OTHER_PATTERN 2) =
               ([exN1, exN2], [exADD], exIdx)"
    by (simp add: exMC_def exGen_def)
  have ne: "[exN1, exN2] \<noteq> []" by simp
  have nt: "\<not> (False \<and> isThroughputPattern exMC (OTHER_PATTERN 2))" by simp
  have nd: "\<not> doSubstitute exMC (length [exN1, exN2]) (length [exADD])"
    by (simp add: doSubstitute_def exMC_def exTSM_def)
  have imp: "improvesCriticalPathLen (TSchedModel exMC) (TargetInfo exMC)
               (RegInfo exMC (view exState)) 0 exADD (getTrace exMC (view exState) 0)
               [exN1, exN2] [exADD] exIdx (OTHER_PATTERN 2) = Inr True"
    by (simp add: exMC_def ex_improves_2)
  have rej: "\<not> (True \<and> preservesResourceLen (TSchedModel exMC) (TargetInfo exMC) 0
                          (getTrace exMC (view exState) 0) [exN1, exN2] [exADD])"
    by (simp add: exMC_def ex_preserves_2)
  have st: "exState\<lparr>MinInstr := True, InstrIdxForVirtReg := Map.empty,
               Log := Log exState @ (if MinInstr exState then [] else [EvGetEnsemble])
                 @ [EvVerifyAnalysis, EvGenAlternativeCodeSequence exADD (OTHER_PATTERN 2)]
                 @ [EvGetTrace 0, EvImprovesCriticalPathLen]
                 @ (if True then [EvPreservesResourceLen] else [])
                 @ map EvDeleteMachineInstr [exN1, exN2]\<rparr> = exRejected"
    by (simp add: exState_def exRejected_def)
  from rejected_candidate [OF gen ne nt nd imp rej, where Ps = "[]"]
  show ?thesis unfolding st by simp
qed

subsection \<open>One anchor of the block\<close>

text \<open>
  C8. Let the iterator be at the anchor \<open>MI\<close>, which is not among the instructions in front
  of it nor among the new instructions of its candidates, and let the body of the loop
  over the block return for it. Then either no pattern was applied and the block, the
  changed flag and the count of combined instructions are as before; or exactly one
  pattern of the anchor was applied: its new instructions stand in front of the anchor in
  their order, its old instructions are erased from every block, the changed flag is set,
  the count is one more, and the last events are the invalidation of the block's trace and
  the verification that follows it, so no pattern was tried after it. In both cases the
  loop goes on with the instruction that followed the anchor when the body began, and
  fails if the body erased that instruction.
\<close>

theorem one_pattern_per_anchor:
  assumes cur: "AfterIter S = MI # rest"
    and fresh: "MI \<notin> set (BeforeIter S)"
    and new: "\<forall>P. MI \<notin> set (fst (genAlternativeCodeSequence MC (view S) MI P))"
    and vis: "visit MC MBB InLoop MI (S\<lparr>BeforeIter := BeforeIter S @ [MI], AfterIter := rest\<rparr>) = Inr S'"
  shows "((BeforeIter S' = BeforeIter S @ [MI] \<and> AfterIter S' = rest \<and> Others S' = Others S \<and>
           Changed S' = Changed S \<and> NumInstCombined S' = NumInstCombined S \<and>
           (\<exists>L. Log S' = Log S @ L))
        \<or> (\<exists>P Ins Del Idx L.
             P \<in> set (snd (getMachineCombinerPatterns MC (view S) MI)) \<and>
             genAlternativeCodeSequence MC (view S) MI P = (Ins, Del, Idx) \<and> Ins \<noteq> [] \<and>
             BeforeIter S' = filter (\<lambda>I. I \<notin> set Del) (BeforeIter S @ Ins @ [MI]) \<and>
             AfterIter S' = filter (\<lambda>I. I \<notin> set Del) rest \<and>
             Others S' = map (filter (\<lambda>I. I \<notin> set Del)) (Others S) \<and>
             Changed S' \<and> NumInstCombined S' = NumInstCombined S + 1 \<and>
             Log S' = Log S @ L @ [EvInvalidate MBB, EvVerifyAnalysis]))
       \<and> combineLoop MC MBB InLoop S =
           (if rest \<noteq> [] \<and> hd rest \<notin> set (AfterIter S') then Inl DanglingIterator
            else combineLoop MC MBB InLoop S')"
proof -
  let ?S1 = "S\<lparr>BeforeIter := BeforeIter S @ [MI], AfterIter := rest\<rparr>"
  from cur have v: "view ?S1 = view S" by (simp add: view_def)
  obtain found Ps where g: "getMachineCombinerPatterns MC (view S) MI = (found, Ps)"
    by (cases "getMachineCombinerPatterns MC (view S) MI")
  have loop: "combineLoop MC MBB InLoop S =
           (if rest \<noteq> [] \<and> hd rest \<notin> set (AfterIter S') then Inl DanglingIterator
            else combineLoop MC MBB InLoop S')"
    using cur vis by (subst combineLoop.simps) simp
  have edit: "foldl (\<lambda>b X. insertBefore MI X b) (BeforeIter S @ [MI]) Ins = BeforeIter S @ Ins @ [MI]"
    if "genAlternativeCodeSequence MC (view S) MI P = (Ins, Del, Idx)" for P Ins Del Idx
  proof -
    from new that have "MI \<notin> set Ins" by (metis fst_conv)
    from foldl_insertBefore [OF fresh this, of "[]"] show ?thesis by simp
  qed
  show ?thesis
  proof (cases found)
    case False
    with vis g v have "S' = ?S1" by (simp add: visit_def)
    then have "BeforeIter S' = BeforeIter S @ [MI]" "AfterIter S' = rest" "Others S' = Others S"
      "Changed S' = Changed S" "NumInstCombined S' = NumInstCombined S" "Log S' = Log S @ []"
      by simp_all
    with loop show ?thesis by blast
  next
    case True
    with vis g v have "tryPatterns MC MBB InLoop MI Ps ?S1 = Inr S'" by (simp add: visit_def)
    from tryPatterns_outcome [OF this] show ?thesis
    proof (elim disjE exE conjE)
      fix L
      assume "BeforeIter S' = BeforeIter ?S1" "AfterIter S' = AfterIter ?S1" "Others S' = Others ?S1"
        "Changed S' = Changed ?S1" "NumInstCombined S' = NumInstCombined ?S1" "Log S' = Log ?S1 @ L"
      then have "BeforeIter S' = BeforeIter S @ [MI]" "AfterIter S' = rest" "Others S' = Others S"
        "Changed S' = Changed S" "NumInstCombined S' = NumInstCombined S" "Log S' = Log S @ L"
        by simp_all
      with loop show ?thesis by blast
    next
      fix P Ins Del Idx L
      assume P: "P \<in> set Ps"
        and gen: "genAlternativeCodeSequence MC (view ?S1) MI P = (Ins, Del, Idx)"
        and ne: "Ins \<noteq> []"
        and rest: "BeforeIter S' =
              filter (\<lambda>I. I \<notin> set Del) (foldl (\<lambda>b X. insertBefore MI X b) (BeforeIter ?S1) Ins)"
          "AfterIter S' = filter (\<lambda>I. I \<notin> set Del) (AfterIter ?S1)"
          "Others S' = map (filter (\<lambda>I. I \<notin> set Del)) (Others ?S1)"
          "Changed S'" "NumInstCombined S' = NumInstCombined ?S1 + 1"
          "Log S' = Log ?S1 @ L @ [EvInvalidate MBB, EvVerifyAnalysis]"
      from gen v have gen': "genAlternativeCodeSequence MC (view S) MI P = (Ins, Del, Idx)"
        by simp
      from P g have P': "P \<in> set (snd (getMachineCombinerPatterns MC (view S) MI))" by simp
      from rest edit [OF gen']
      have "BeforeIter S' = filter (\<lambda>I. I \<notin> set Del) (BeforeIter S @ Ins @ [MI])"
        "AfterIter S' = filter (\<lambda>I. I \<notin> set Del) rest"
        "Others S' = map (filter (\<lambda>I. I \<notin> set Del)) (Others S)"
        "Changed S'" "NumInstCombined S' = NumInstCombined S + 1"
        "Log S' = Log S @ L @ [EvInvalidate MBB, EvVerifyAnalysis]"
        by simp_all
      with P' gen' ne loop show ?thesis by blast
    qed
  qed
qed

theorem one_pattern_per_anchor_witness:
  "visit exMC 0 False exADD (exStart\<lparr>BeforeIter := BeforeIter exStart @ [exADD], AfterIter := [exUSE]\<rparr>)
     = Inr exCombined \<and>
   combineLoop exMC 0 False exStart = combineLoop exMC 0 False exCombined \<and>
   combineLoop exMC 0 False exStart =
     Inr (exCombined\<lparr>BeforeIter := [exMADD, exUSE], AfterIter := []\<rparr>)"
proof -
  let ?S1 = "exStart\<lparr>BeforeIter := BeforeIter exStart @ [exADD], AfterIter := [exUSE]\<rparr>"
  have S1: "?S1 = exState" by (simp add: exStart_def exState_def)
  have cur: "AfterIter exStart = exADD # [exUSE]" by (simp add: exStart_def)
  have fresh: "exADD \<notin> set (BeforeIter exStart)" by (simp add: exStart_def ex_distinct')
  have new: "\<forall>P. exADD \<notin> set (fst (genAlternativeCodeSequence exMC (view exStart) exADD P))"
    by (simp add: exMC_def exGen_def ex_distinct')
  have gen1: "genAlternativeCodeSequence exMC (view exState) exADD (OTHER_PATTERN 2) =
               ([exN1, exN2], [exADD], exIdx)"
    by (simp add: exMC_def exGen_def)
  have t1: "tryPattern exMC 0 False exADD (OTHER_PATTERN 2) exState = Inr (False, exRejected)"
    by (simp add: tryPattern_eq [OF gen1] doSubstitute_def)
       (simp add: exMC_def exTSM_def ex_improves_2 [unfolded exTSM_def] ex_preserves_2 [unfolded exTSM_def]
          afterSynthesis_def exState_def exRejected_def)
  have gen0: "genAlternativeCodeSequence exMC (view exRejected) exADD (OTHER_PATTERN 0) =
               ([exMADD], [exMUL, exADD], Map.empty)"
    by (simp add: exMC_def exGen_def)
  have t0: "tryPattern exMC 0 False exADD (OTHER_PATTERN 0) exRejected = Inr (True, exCombined)"
    by (simp add: tryPattern_eq [OF gen0] doSubstitute_def)
       (simp add: exMC_def exTSM_def ex_improves_0 [unfolded exTSM_def] ex_preserves_0 [unfolded exTSM_def]
          afterSynthesis_def exRejected_def exCombined_def insertDeleteInstructions_def
          MBB_insert_def eraseFromParent_def Let_def ex_distinct')
  have pats: "getMachineCombinerPatterns exMC (view exState) exADD =
                (True, [OTHER_PATTERN 2, OTHER_PATTERN 0])"
    by (simp add: exMC_def exADD_def)
  have vis: "visit exMC 0 False exADD ?S1 = Inr exCombined"
    unfolding S1 by (simp add: visit_def pats t1 t0)
  have a: "AfterIter exCombined = [exUSE]" by (simp add: exCombined_def)
  from one_pattern_per_anchor [OF cur fresh new vis]
  have loop: "combineLoop exMC 0 False exStart = combineLoop exMC 0 False exCombined"
    by (simp add: a)
  have last: "combineLoop exMC 0 False exCombined =
      Inr (exCombined\<lparr>BeforeIter := [exMADD, exUSE], AfterIter := []\<rparr>)"
  proof -
    let ?S2 = "exCombined\<lparr>BeforeIter := BeforeIter exCombined @ [exUSE], AfterIter := []\<rparr>"
    have "getMachineCombinerPatterns exMC (view ?S2) exUSE = (False, [])"
      by (simp add: exMC_def exUSE_def)
    then have v: "visit exMC 0 False exUSE ?S2 = Inr ?S2"
      by (simp add: visit_def)
    have e: "combineLoop exMC 0 False ?S2 = Inr ?S2"
      by (subst combineLoop.simps) simp
    have "combineLoop exMC 0 False exCombined = combineLoop exMC 0 False ?S2"
      by (subst combineLoop.simps) (simp add: a v)
    with e show ?thesis by (simp add: exCombined_def)
  qed
  from vis loop last show ?thesis by simp
qed

end
